theory Spec2Isabelle
  imports Main "HOL-Library.Word"
begin

unbundle bit_operations_syntax

section \<open>Clipboard image storage: the Electron file backend\<close>

text \<open>
  A shallow embedding of \<^verbatim>\<open>electron/clipboard-image-handler.ts\<close>: the IPC handlers that
  save, load, delete and locate clipboard images in a directory, the handler that reads an
  image from the clipboard, and the filter over clipboard file paths. Strings are byte
  strings; the file system is an explicit state; a JavaScript exception is the left
  summand of a result.
\<close>

subsection \<open>Strings and paths (the parts of JavaScript and of Node's \<^verbatim>\<open>path\<close> that are used)\<close>

type_synonym byte = "8 word"

text \<open>\<^verbatim>\<open>String.prototype.toLowerCase\<close> on the ASCII range: \<^verbatim>\<open>A\<close>..\<^verbatim>\<open>Z\<close> become
  \<^verbatim>\<open>a\<close>..\<^verbatim>\<open>z\<close>, every other byte is kept.\<close>

definition lower_char :: "char \<Rightarrow> char" where
  "lower_char c =
     (if 65 \<le> (of_char c :: nat) \<and> (of_char c :: nat) \<le> 90
      then char_of ((of_char c :: nat) + 32) else c)"

definition toLowerCase :: "string \<Rightarrow> string" where
  "toLowerCase s = map lower_char s"

text \<open>
  Node's POSIX \<^verbatim>\<open>path.join\<close> (\<^verbatim>\<open>join\<close>, \<^verbatim>\<open>normalize\<close> and \<^verbatim>\<open>normalizeString\<close> of Node's
  \<^verbatim>\<open>lib/path.js\<close>), as the handlers call it with two arguments. The non-empty arguments
  are joined by one separator and the result is normalised: empty and \<^verbatim>\<open>.\<close> segments go,
  a \<^verbatim>\<open>..\<close> segment takes back the segment before it (with nothing to take back it is
  dropped in an absolute path and kept in a relative one), and a trailing separator is
  kept.
\<close>

text \<open>The segments of a path: the text between its separators.\<close>

fun split_path :: "string \<Rightarrow> string list" where
  "split_path [] = [[]]"
| "split_path (c # cs) =
     (if c = CHR ''/'' then [] # split_path cs
      else (case split_path cs of [] \<Rightarrow> [[c]] | s # ss \<Rightarrow> (c # s) # ss))"

fun join_segments :: "string list \<Rightarrow> string" where
  "join_segments [] = []"
| "join_segments [s] = s"
| "join_segments (s # t # ss) = s @ ''/'' @ join_segments (t # ss)"

text \<open>One step of \<^verbatim>\<open>normalizeString\<close>: the segments kept so far (the last one first) and
  the next segment. Above the root, \<^verbatim>\<open>..\<close> is kept only when the path is relative
  (\<open>allowAboveRoot\<close>).\<close>

fun normalize_step :: "bool \<Rightarrow> string list \<Rightarrow> string \<Rightarrow> string list" where
  "normalize_step allowAboveRoot kept seg =
     (if seg = [] \<or> seg = ''.'' then kept
      else if seg = ''..'' then
        (case kept of
           [] \<Rightarrow> if allowAboveRoot then [''..''] else []
         | t # ts \<Rightarrow>
             if t = ''..'' then (if allowAboveRoot then ''..'' # kept else kept) else ts)
      else seg # kept)"

definition normalizeString :: "string \<Rightarrow> bool \<Rightarrow> string" where
  "normalizeString p allowAboveRoot =
     join_segments (rev (foldl (normalize_step allowAboveRoot) [] (split_path p)))"

definition posix_normalize :: "string \<Rightarrow> string" where
  "posix_normalize p =
     (if p = [] then ''.''
      else
        (let isAbsolute = (hd p = CHR ''/'');
             trailingSeparator = (last p = CHR ''/'');
             res = normalizeString p (\<not> isAbsolute)
         in if res = [] then (if isAbsolute then ''/'' else if trailingSeparator then ''./'' else ''.'')
            else (if isAbsolute then ''/'' else []) @ res @
                 (if trailingSeparator then ''/'' else [])))"

definition path_join :: "string \<Rightarrow> string \<Rightarrow> string" where
  "path_join basePath name =
     (let joined = (if basePath = [] then name
                    else if name = [] then basePath
                    else basePath @ ''/'' @ name)
      in if joined = [] then ''.'' else posix_normalize joined)"

text \<open>The directory that holds the entry at a path in normal form: everything before the
  last separator, the root for an entry of the root, and \<^verbatim>\<open>.\<close> for a path without
  separator. (The handlers do not compute it; the file system does, when it creates or
  removes an entry.)\<close>

definition parent_dir :: "string \<Rightarrow> string" where
  "parent_dir p =
     (let d = rev (drop 1 (dropWhile (\<lambda>c. c \<noteq> CHR ''/'') (rev p)))
      in if CHR ''/'' \<notin> set p then ''.'' else if d = [] then ''/'' else d)"

text \<open>The last portion of a path: trailing separators are skipped, then everything after
  the last remaining separator.\<close>

definition last_portion :: "string \<Rightarrow> string" where
  "last_portion p =
     rev (takeWhile (\<lambda>c. c \<noteq> CHR ''/'') (dropWhile (\<lambda>c. c = CHR ''/'') (rev p)))"

text \<open>\<^verbatim>\<open>path.extname\<close> (POSIX): from the last \<^verbatim>\<open>.\<close> of the last portion to its end; the
  empty string when the portion has no \<^verbatim>\<open>.\<close>, when its only \<^verbatim>\<open>.\<close> is its first character,
  and when the portion is \<^verbatim>\<open>..\<close>.\<close>

definition portion_ext :: "string \<Rightarrow> string" where
  "portion_ext b =
     (if CHR ''.'' \<notin> set b then ''''
      else let e = rev (takeWhile (\<lambda>c. c \<noteq> CHR ''.'') (rev b));
               stem = take (length b - length e - 1) b
           in if stem = [] \<or> b = ''..'' then '''' else CHR ''.'' # e)"

definition path_extname :: "string \<Rightarrow> string" where
  "path_extname p = portion_ext (last_portion p)"

subsection \<open>Extensions and mime types\<close>

definition SUPPORTED_IMAGE_EXTENSIONS :: "string list" where
  "SUPPORTED_IMAGE_EXTENSIONS =
     [''.png'', ''.jpg'', ''.jpeg'', ''.gif'', ''.webp'', ''.svg'', ''.bmp'']"

definition getMimeFromExt :: "string \<Rightarrow> string" where
  "getMimeFromExt ext =
     (let extLower = toLowerCase ext in
      if extLower = ''.png'' then ''image/png''
      else if extLower = ''.jpg'' \<or> extLower = ''.jpeg'' then ''image/jpeg''
      else if extLower = ''.gif'' then ''image/gif''
      else if extLower = ''.webp'' then ''image/webp''
      else if extLower = ''.svg'' then ''image/svg+xml''
      else if extLower = ''.bmp'' then ''image/bmp''
      else ''image/png'')"

text \<open>The mime types that \<^verbatim>\<open>getMimeFromExt\<close> returns: the enumerated set of an image
  record's mime type.\<close>

definition supported_mime_types :: "string list" where
  "supported_mime_types =
     [''image/png'', ''image/jpeg'', ''image/gif'', ''image/webp'', ''image/svg+xml'',
      ''image/bmp'']"

subsection \<open>The file system\<close>

text \<open>
  The medium the handlers run on: a map from path to entry. An entry is a directory, with
  a flag telling whether entries can be added to it and removed from it, or a file with
  its bytes and a flag telling whether it can be opened (a file that cannot stands for a
  permission or device failure). An entry is looked up under the path as it is given, so
  the map describes a file system through its paths in normal form: the handlers pass
  results of \<^verbatim>\<open>path.join\<close>, which are in normal form, the store directory itself (to
  \<^verbatim>\<open>ensureDir\<close>) and the clipboard paths. The operations are those of Node's \<^verbatim>\<open>fs\<close> that
  the handlers call; the synchronous ones throw, which is the left summand.
\<close>

datatype fs_error = ENOENT | EISDIR | ENOTDIR | EACCES | EEXIST

datatype node = File (content: "byte list") (accessible: bool) | Dir (writable: bool)

type_synonym filesys = "string \<rightharpoonup> node"

definition fs_existsSync :: "filesys \<Rightarrow> string \<Rightarrow> bool" where
  "fs_existsSync fs p = (fs p \<noteq> None)"

text \<open>Creating a directory and the ancestors it lacks, as \<^verbatim>\<open>mkdirSync\<close> does with
  \<^verbatim>\<open>recursive: true\<close>: the walk goes up to the first ancestor that exists; it fails when
  that ancestor is a file or a directory that cannot be written, and when no ancestor
  exists. The first argument bounds the walk; a path has no more ancestors than its
  length plus one, so the bound that \<open>fs_mkdirSync\<close> gives is never reached while an
  ancestor is left to look at.\<close>

fun mkdir_chain :: "nat \<Rightarrow> filesys \<Rightarrow> string \<Rightarrow> fs_error + filesys" where
  "mkdir_chain 0 fs p = Inl ENOENT"
| "mkdir_chain (Suc n) fs p =
     (case fs p of
        Some (Dir _) \<Rightarrow> Inr fs
      | Some (File _ _) \<Rightarrow> Inl ENOTDIR
      | None \<Rightarrow>
          (case mkdir_chain n fs (parent_dir p) of
             Inl error \<Rightarrow> Inl error
           | Inr fs1 \<Rightarrow>
               (case fs1 (parent_dir p) of
                  Some (Dir w) \<Rightarrow> if w then Inr (fs1(p \<mapsto> Dir True)) else Inl EACCES
                | Some (File _ _) \<Rightarrow> Inl ENOTDIR
                | None \<Rightarrow> Inl ENOENT)))"

definition fs_mkdirSync :: "filesys \<Rightarrow> string \<Rightarrow> fs_error + filesys" where
  "fs_mkdirSync fs p =
     (case fs p of
        Some (File _ _) \<Rightarrow> Inl EEXIST
      | _ \<Rightarrow> mkdir_chain (length p + 2) fs p)"

definition fs_readFileSync :: "filesys \<Rightarrow> string \<Rightarrow> fs_error + byte list" where
  "fs_readFileSync fs p =
     (case fs p of
        None \<Rightarrow> Inl ENOENT
      | Some (Dir _) \<Rightarrow> Inl EISDIR
      | Some (File bs ok) \<Rightarrow> if ok then Inr bs else Inl EACCES)"

definition fs_writeFileSync :: "filesys \<Rightarrow> string \<Rightarrow> byte list \<Rightarrow> fs_error + filesys" where
  "fs_writeFileSync fs p bs =
     (case fs (parent_dir p) of
        None \<Rightarrow> Inl ENOENT
      | Some (File _ _) \<Rightarrow> Inl ENOTDIR
      | Some (Dir w) \<Rightarrow>
          (case fs p of
             None \<Rightarrow> if w then Inr (fs(p \<mapsto> File bs True)) else Inl EACCES
           | Some (Dir _) \<Rightarrow> Inl EISDIR
           | Some (File _ ok) \<Rightarrow> if ok then Inr (fs(p \<mapsto> File bs True)) else Inl EACCES))"

definition fs_unlinkSync :: "filesys \<Rightarrow> string \<Rightarrow> fs_error + filesys" where
  "fs_unlinkSync fs p =
     (case fs p of
        None \<Rightarrow> Inl ENOENT
      | Some (Dir _) \<Rightarrow> Inl EISDIR
      | Some (File _ _) \<Rightarrow>
          (case fs (parent_dir p) of
             None \<Rightarrow> Inl ENOENT
           | Some (File _ _) \<Rightarrow> Inl ENOTDIR
           | Some (Dir w) \<Rightarrow> if w then Inr (fs(p := None)) else Inl EACCES))"


subsection \<open>Helpers of the handler file\<close>

text \<open>\<^verbatim>\<open>ensureDir\<close>: creates the directory when nothing exists at the path. The result is
  the file system after the call, or the exception of \<^verbatim>\<open>mkdirSync\<close>.\<close>

definition ensureDir :: "filesys \<Rightarrow> string \<Rightarrow> fs_error + filesys" where
  "ensureDir fs dirPath =
     (if \<not> fs_existsSync fs dirPath then fs_mkdirSync fs dirPath else Inr fs)"

text \<open>The loop of \<^verbatim>\<open>findImageFile\<close> over a list of extensions: the first path that exists.\<close>

fun findImageFile_loop :: "filesys \<Rightarrow> string \<Rightarrow> string \<Rightarrow> string list \<Rightarrow> string option" where
  "findImageFile_loop fs basePath imageId [] = None"
| "findImageFile_loop fs basePath imageId (ext # exts) =
     (let filePath = path_join basePath (imageId @ ext) in
      if fs_existsSync fs filePath then Some filePath
      else findImageFile_loop fs basePath imageId exts)"

definition findImageFile :: "filesys \<Rightarrow> string \<Rightarrow> string \<Rightarrow> string option" where
  "findImageFile fs basePath imageId =
     findImageFile_loop fs basePath imageId SUPPORTED_IMAGE_EXTENSIONS"

subsection \<open>The base64 codec of Node's \<^verbatim>\<open>Buffer\<close>\<close>

text \<open>\<^verbatim>\<open>buffer.toString('base64')\<close>: three bytes become four characters of the standard
  alphabet, the last group is padded with \<^verbatim>\<open>=\<close>.\<close>

definition base64_char :: "byte \<Rightarrow> char" where
  "base64_char s =
     (let n = unat s in
      if n < 26 then char_of (n + 65)
      else if n < 52 then char_of (n + 71)
      else if n < 62 then char_of (n - 4)
      else if n = 62 then CHR ''+''
      else CHR ''/'')"

fun base64_encode :: "byte list \<Rightarrow> string" where
  "base64_encode [] = []"
| "base64_encode [a] =
     [base64_char (drop_bit 2 a), base64_char (push_bit 4 (a AND 3)), CHR ''='', CHR ''='']"
| "base64_encode [a, b] =
     [base64_char (drop_bit 2 a),
      base64_char (push_bit 4 (a AND 3) OR drop_bit 4 b),
      base64_char (push_bit 2 (b AND 15)), CHR ''='']"
| "base64_encode (a # b # c # rest) =
     [base64_char (drop_bit 2 a),
      base64_char (push_bit 4 (a AND 3) OR drop_bit 4 b),
      base64_char (push_bit 2 (b AND 15) OR drop_bit 6 c),
      base64_char (c AND 63)] @ base64_encode rest"

text \<open>\<^verbatim>\<open>Buffer.from(text, 'base64')\<close>: the decoder is lenient and never throws. It stops
  at the first \<^verbatim>\<open>=\<close>, skips every character outside the alphabet (the URL-safe \<^verbatim>\<open>-\<close>
  and \<^verbatim>\<open>_\<close> are accepted too), and turns each further six bits into output as soon as a
  byte is complete.\<close>

definition unbase64 :: "char \<Rightarrow> byte option" where
  "unbase64 c =
     (let n = (of_char c :: nat) in
      if 65 \<le> n \<and> n \<le> 90 then Some (of_nat (n - 65))
      else if 97 \<le> n \<and> n \<le> 122 then Some (of_nat (n - 71))
      else if 48 \<le> n \<and> n \<le> 57 then Some (of_nat (n + 4))
      else if n = 43 \<or> n = 45 then Some 62
      else if n = 47 \<or> n = 95 then Some 63
      else None)"

fun decode_sextets :: "byte list \<Rightarrow> byte list" where
  "decode_sextets (s0 # s1 # s2 # s3 # rest) =
     [push_bit 2 s0 OR drop_bit 4 s1,
      push_bit 4 (s1 AND 15) OR drop_bit 2 s2,
      push_bit 6 (s2 AND 3) OR s3] @ decode_sextets rest"
| "decode_sextets [s0, s1, s2] =
     [push_bit 2 s0 OR drop_bit 4 s1, push_bit 4 (s1 AND 15) OR drop_bit 2 s2]"
| "decode_sextets [s0, s1] = [push_bit 2 s0 OR drop_bit 4 s1]"
| "decode_sextets [s0] = []"
| "decode_sextets [] = []"

definition base64_decode :: "string \<Rightarrow> byte list" where
  "base64_decode text =
     decode_sextets (List.map_filter unbase64 (takeWhile (\<lambda>c. c \<noteq> CHR ''='') text))"

subsection \<open>Identifier generation\<close>

text \<open>\<^verbatim>\<open>Number.prototype.toString(36)\<close> on a non-negative integer.\<close>

definition digit36 :: "nat \<Rightarrow> char" where
  "digit36 d = (if d < 10 then char_of (d + 48) else char_of (d + 87))"

function toString36 :: "nat \<Rightarrow> string" where
  "toString36 n = (if n < 36 then [digit36 n] else toString36 (n div 36) @ [digit36 (n mod 36)])"
  by pat_completeness auto
termination
  by (relation "measure (\<lambda>n. n)") auto

declare toString36.simps [simp del]

text \<open>\<^verbatim>\<open>Date.now().toString(36) + Math.random().toString(36).substring(2)\<close>. The clock
  reading \<open>now\<close> and the text \<open>rnd\<close> of \<^verbatim>\<open>Math.random().toString(36)\<close> are inputs.\<close>

definition newId :: "nat \<Rightarrow> string \<Rightarrow> string" where
  "newId now rnd = toString36 now @ drop 2 rnd"

subsection \<open>The IPC handlers\<close>

text \<open>A handler returns what it resolves to (or the exception it rejects with) and the
  file system it leaves behind.\<close>

record load_result =
  base64 :: string
  mimeType :: string


text \<open>\<^verbatim>\<open>try { body } catch (error) { handler }\<close> around a computation on the file system:
  an exception of the body is replaced by the handler's result, the file system stays as
  the body left it.\<close>

definition try_catch ::
  "(fs_error + 'a) \<times> filesys \<Rightarrow> (fs_error \<Rightarrow> fs_error + 'a) \<Rightarrow> (fs_error + 'a) \<times> filesys" where
  "try_catch body handler =
     (case body of (Inl error, fs) \<Rightarrow> (handler error, fs) | (Inr v, fs) \<Rightarrow> (Inr v, fs))"

text \<open>The save handler. (In the later version of the file it also receives the mime type,
  which it does not use.)\<close>

definition save_try :: "filesys \<Rightarrow> string \<Rightarrow> string \<Rightarrow> string \<Rightarrow> (fs_error + string) \<times> filesys" where
  "save_try fs basePath fileName base64Data =
     (case ensureDir fs basePath of
        Inl error \<Rightarrow> (Inl error, fs)
      | Inr fs1 \<Rightarrow>
          (let filePath = path_join basePath fileName;
               buffer = base64_decode base64Data
           in case fs_writeFileSync fs1 filePath buffer of
                Inl error \<Rightarrow> (Inl error, fs1)
              | Inr fs2 \<Rightarrow> (Inr filePath, fs2)))"

definition CLIPBOARD_IMAGE_SAVE ::
  "filesys \<Rightarrow> string \<Rightarrow> string \<Rightarrow> string \<Rightarrow> (fs_error + string) \<times> filesys" where
  "CLIPBOARD_IMAGE_SAVE fs basePath fileName base64Data =
     try_catch (save_try fs basePath fileName base64Data) (\<lambda>error. Inl error)"

definition load_try :: "filesys \<Rightarrow> string \<Rightarrow> string \<Rightarrow> (fs_error + load_result option) \<times> filesys" where
  "load_try fs basePath imageId =
     (case findImageFile fs basePath imageId of
        None \<Rightarrow> (Inr None, fs)
      | Some filePath \<Rightarrow>
          (case fs_readFileSync fs filePath of
             Inl error \<Rightarrow> (Inl error, fs)
           | Inr buffer \<Rightarrow>
               (let ext = path_extname filePath;
                    mimeType = getMimeFromExt ext
                in (Inr (Some \<lparr>base64 = base64_encode buffer, mimeType = mimeType\<rparr>), fs))))"

definition CLIPBOARD_IMAGE_LOAD ::
  "filesys \<Rightarrow> string \<Rightarrow> string \<Rightarrow> (fs_error + load_result option) \<times> filesys" where
  "CLIPBOARD_IMAGE_LOAD fs basePath imageId =
     try_catch (load_try fs basePath imageId) (\<lambda>error. Inr None)"

definition delete_try :: "filesys \<Rightarrow> string \<Rightarrow> string \<Rightarrow> (fs_error + bool) \<times> filesys" where
  "delete_try fs basePath imageId =
     (case findImageFile fs basePath imageId of
        None \<Rightarrow> (Inr False, fs)
      | Some filePath \<Rightarrow>
          (case fs_unlinkSync fs filePath of
             Inl error \<Rightarrow> (Inl error, fs)
           | Inr fs1 \<Rightarrow> (Inr True, fs1)))"

definition CLIPBOARD_IMAGE_DELETE ::
  "filesys \<Rightarrow> string \<Rightarrow> string \<Rightarrow> (fs_error + bool) \<times> filesys" where
  "CLIPBOARD_IMAGE_DELETE fs basePath imageId =
     try_catch (delete_try fs basePath imageId) (\<lambda>error. Inr False)"

definition CLIPBOARD_IMAGE_GET_PATH ::
  "filesys \<Rightarrow> string \<Rightarrow> string \<Rightarrow> (fs_error + string option) \<times> filesys" where
  "CLIPBOARD_IMAGE_GET_PATH fs basePath imageId =
     try_catch (Inr (findImageFile fs basePath imageId), fs) (\<lambda>error. Inr None)"




text \<open>The filter at the end of the \<^verbatim>\<open>CLIPBOARD_GET_FILE_PATHS\<close> handler, over the paths
  read from the clipboard.\<close>

definition imageFiles :: "filesys \<Rightarrow> string list \<Rightarrow> string list" where
  "imageFiles fs filePaths =
     filter (\<lambda>filePath.
        if \<not> fs_existsSync fs filePath then False
        else (let ext = toLowerCase (path_extname filePath)
              in ext \<in> set SUPPORTED_IMAGE_EXTENSIONS)) filePaths"

subsection \<open>Copying a clipboard file into the store\<close>




subsection \<open>A directory used in the examples\<close>

text \<open>A store directory \<^verbatim>\<open>/imgs\<close> in which the id \<^verbatim>\<open>a1\<close> has two files, \<^verbatim>\<open>c3\<close> has a file
  with an extension outside the supported list, \<^verbatim>\<open>d4.svg\<close> is a directory and
  \<^verbatim>\<open>e5.webp\<close> cannot be opened; and two files elsewhere.\<close>

definition example_store :: filesys where
  "example_store =
     [''/'' \<mapsto> Dir True,
      ''/imgs'' \<mapsto> Dir True,
      ''/imgs/a1.png'' \<mapsto> File [137, 80, 78, 71] True,
      ''/imgs/a1.jpg'' \<mapsto> File [255, 216, 255] True,
      ''/imgs/b2.gif'' \<mapsto> File [71, 73, 70, 56, 57] True,
      ''/imgs/c3.tiff'' \<mapsto> File [73, 73] True,
      ''/imgs/d4.svg'' \<mapsto> Dir True,
      ''/imgs/e5.webp'' \<mapsto> File [82] False,
      ''/docs'' \<mapsto> Dir True,
      ''/docs/notes.txt'' \<mapsto> File [104, 105] True,
      ''/docs/Photo.JPG'' \<mapsto> File [255, 216] True]"

subsection \<open>Store directories in normal form\<close>

text \<open>A file name proper: not empty, without separator, and neither \<^verbatim>\<open>.\<close> nor \<^verbatim>\<open>..\<close>.\<close>

definition simple_name :: "string \<Rightarrow> bool" where
  "simple_name n = (n \<noteq> [] \<and> CHR ''/'' \<notin> set n \<and> n \<noteq> ''.'' \<and> n \<noteq> ''..'')"

text \<open>An absolute directory path that \<^verbatim>\<open>path.normalize\<close> leaves as it is and that is not the
  root: a separator and then one or more file names proper, with one separator between
  two of them and none at the end.\<close>

definition canonical_dir :: "string \<Rightarrow> bool" where
  "canonical_dir b =
     (case b of [] \<Rightarrow> False | c # rest \<Rightarrow> c = CHR ''/'' \<and> list_all simple_name (split_path rest))"

subsection \<open>Stores in which an id has one file\<close>

text \<open>An id names at most one file of the directory: of the candidate paths
  \<open>basePath/{id}{ext}\<close>, with \<open>ext\<close> in the supported list, no two exist.\<close>

definition sole_file :: "filesys \<Rightarrow> string \<Rightarrow> string \<Rightarrow> bool" where
  "sole_file fs basePath imageId =
     list_all (\<lambda>e1. list_all (\<lambda>e2.
        fs_existsSync fs (path_join basePath (imageId @ e1)) \<and>
        fs_existsSync fs (path_join basePath (imageId @ e2)) \<longrightarrow> e1 = e2)
        SUPPORTED_IMAGE_EXTENSIONS) SUPPORTED_IMAGE_EXTENSIONS"

section \<open>The reference syntax and the capped blob store\<close>

text \<open>
  The formatter and parser of the markdown reference and the IndexedDB-backed store belong
  to the renderer; their code is not among the source files. They are modelled here from
  the specification (sections 3, 4.2 and 4.4) and from the feature description, which
  fixes the scheme literal \<^verbatim>\<open>indexeddb\<close>, the alt text \<^verbatim>\<open>pasted image\<close> and the 2 MB cap.
\<close>

subsection \<open>Reference syntax\<close>

text \<open>Modelled from the spec: the Reference of section 3 (scheme, id, optional display
  dimensions); the renderer's own type is missing.\<close>

record reference =
  ref_scheme :: string
  ref_id :: string
  ref_dimensions :: "(nat \<times> nat) option"

text \<open>Modelled from the spec: the fixed scheme literal and the generic alt text of the
  grammar \<^verbatim>\<open>![ALT](SCHEME://clipboard-images/ID[ =WIDTHxHEIGHT])\<close>; the renderer's
  constants are missing.\<close>

definition SCHEME :: string where
  "SCHEME = ''indexeddb''"

definition ALT :: string where
  "ALT = ''pasted image''"

definition is_digit :: "char \<Rightarrow> bool" where
  "is_digit c = (48 \<le> (of_char c :: nat) \<and> (of_char c :: nat) \<le> 57)"

text \<open>Modelled from the spec: "valid identifier characters" of an id, taken as letters,
  digits, \<^verbatim>\<open>-\<close> and \<^verbatim>\<open>_\<close>; the renderer's check is missing.\<close>

definition valid_id_char :: "char \<Rightarrow> bool" where
  "valid_id_char c =
     (let n = (of_char c :: nat) in
      (48 \<le> n \<and> n \<le> 57) \<or> (65 \<le> n \<and> n \<le> 90) \<or> (97 \<le> n \<and> n \<le> 122) \<or>
      c = CHR ''-'' \<or> c = CHR ''_'')"

definition valid_id :: "string \<Rightarrow> bool" where
  "valid_id s = (s \<noteq> [] \<and> list_all valid_id_char s)"

text \<open>Modelled from the spec: a valid Reference has the fixed scheme, a valid id and, when
  it has dimensions, positive ones.\<close>

definition valid_reference :: "reference \<Rightarrow> bool" where
  "valid_reference r =
     (ref_scheme r = SCHEME \<and> valid_id (ref_id r) \<and>
      (case ref_dimensions r of None \<Rightarrow> True | Some (w, h) \<Rightarrow> 0 < w \<and> 0 < h))"

text \<open>Decimal text of a natural number.\<close>

function show_nat :: "nat \<Rightarrow> string" where
  "show_nat n =
     (if n < 10 then [char_of (n + 48)] else show_nat (n div 10) @ [char_of (n mod 10 + 48)])"
  by pat_completeness auto
termination
  by (relation "measure (\<lambda>n. n)") auto

declare show_nat.simps [simp del]

text \<open>Modelled from the spec: the formatter of the grammar of section 4.4; the renderer's
  formatter is missing.\<close>

definition format_reference :: "reference \<Rightarrow> string" where
  "format_reference r =
     ''!['' @ ALT @ '']('' @ ref_scheme r @ ''://clipboard-images/'' @ ref_id r @
     (case ref_dimensions r of
        None \<Rightarrow> []
      | Some (w, h) \<Rightarrow> '' ='' @ show_nat w @ ''x'' @ show_nat h) @ '')''"

fun strip_prefix :: "string \<Rightarrow> string \<Rightarrow> string option" where
  "strip_prefix [] s = Some s"
| "strip_prefix (p # ps) [] = None"
| "strip_prefix (p # ps) (c # cs) = (if p = c then strip_prefix ps cs else None)"

definition parse_nat :: "string \<Rightarrow> nat option" where
  "parse_nat s =
     (if s \<noteq> [] \<and> list_all is_digit s
      then Some (foldl (\<lambda>n c. 10 * n + ((of_char c :: nat) - 48)) 0 s)
      else None)"

text \<open>Modelled from the spec: a width or height is a positive integer; anything else is
  rejected.\<close>

definition parse_positive :: "string \<Rightarrow> nat option" where
  "parse_positive s =
     (case parse_nat s of
        None \<Rightarrow> None
      | Some n \<Rightarrow> if 0 < n then Some n else None)"

text \<open>Modelled from the spec: the sizing suffix \<^verbatim>\<open>=WxH\<close>; a suffix that is not of this
  form with positive integers is taken as absent.\<close>

definition parse_sizing :: "string \<Rightarrow> (nat \<times> nat) option" where
  "parse_sizing suffix =
     (case strip_prefix ''='' suffix of
        None \<Rightarrow> None
      | Some wh \<Rightarrow>
          (case strip_prefix ''x'' (dropWhile (\<lambda>c. c \<noteq> CHR ''x'') wh) of
             None \<Rightarrow> None
           | Some h \<Rightarrow>
               (case parse_positive (takeWhile (\<lambda>c. c \<noteq> CHR ''x'') wh) of
                  None \<Rightarrow> None
                | Some a \<Rightarrow>
                    (case parse_positive h of
                       None \<Rightarrow> None
                     | Some b \<Rightarrow> Some (a, b)))))"

text \<open>Modelled from the spec: the parser of the grammar of section 4.4; the renderer's
  parser is missing. The text is one markdown image node. The source of the node is what
  stands between \<^verbatim>\<open>](\<close> and the closing parenthesis; it is split at its first space into
  the URL and the sizing suffix; the URL must be the scheme, \<^verbatim>\<open>://clipboard-images/\<close> and
  a valid id.\<close>

definition parse_reference :: "string \<Rightarrow> reference option" where
  "parse_reference text =
     (case strip_prefix ''!['' text of
        None \<Rightarrow> None
      | Some t1 \<Rightarrow>
          (case strip_prefix '']('' (dropWhile (\<lambda>c. c \<noteq> CHR '']'') t1) of
             None \<Rightarrow> None
           | Some t2 \<Rightarrow>
               if t2 = [] \<or> last t2 \<noteq> CHR '')'' then None
               else
                 (let src = butlast t2;
                      url = takeWhile (\<lambda>c. c \<noteq> CHR '' '') src;
                      suffix = drop 1 (dropWhile (\<lambda>c. c \<noteq> CHR '' '') src)
                  in case strip_prefix (SCHEME @ ''://clipboard-images/'') url of
                       None \<Rightarrow> None
                     | Some ident \<Rightarrow>
                         if valid_id ident
                         then Some \<lparr>ref_scheme = SCHEME, ref_id = ident,
                                     ref_dimensions = parse_sizing suffix\<rparr>
                         else None)))"

subsection \<open>The capped blob store\<close>

text \<open>Modelled from the spec: the errors of \<open>save\<close> (section 7); the renderer's error
  values are missing.\<close>

datatype save_error = SizeLimitExceeded | StorageWriteError

text \<open>Modelled from the spec: a record of the blob store, the value stored under the id
  (section 4.2); the renderer's type is missing.\<close>

record blob_record =
  blob_bytes :: "byte list"
  blob_mimeType :: string
  blob_size :: nat
  blob_createdAt :: nat

type_synonym blob_store = "string \<rightharpoonup> blob_record"

text \<open>Modelled from the spec: the hard size cap of 2 MiB; the renderer's constant is
  missing.\<close>

definition MAX_IMAGE_SIZE :: nat where
  "MAX_IMAGE_SIZE = 2 * 1024 * 1024"

text \<open>Modelled from the spec: \<open>save\<close> of section 4.2 on a blob store; the renderer's
  IndexedDB service is missing. The size is checked against the configured cap before
  anything is written; a failure of the medium (\<open>medium_ok\<close> false) is a
  \<open>StorageWriteError\<close>; otherwise the record is put under the new id. The new id and the
  clock reading are inputs.\<close>

definition blob_save ::
  "nat option \<Rightarrow> blob_store \<Rightarrow> bool \<Rightarrow> string \<Rightarrow> nat \<Rightarrow> byte list \<Rightarrow> string
     \<Rightarrow> (save_error + string) \<times> blob_store" where
  "blob_save cap store medium_ok newid now bytes mime =
     (if (case cap of None \<Rightarrow> False | Some c \<Rightarrow> c < length bytes)
      then (Inl SizeLimitExceeded, store)
      else if \<not> medium_ok then (Inl StorageWriteError, store)
      else (Inr newid,
            store(newid \<mapsto> \<lparr>blob_bytes = bytes, blob_mimeType = mime,
                               blob_size = length bytes, blob_createdAt = now\<rparr>)))"

text \<open>Modelled from the spec: the BlobStoreBackend is the blob store with the 2 MiB cap.\<close>

definition blobstore_save ::
  "blob_store \<Rightarrow> bool \<Rightarrow> string \<Rightarrow> nat \<Rightarrow> byte list \<Rightarrow> string
     \<Rightarrow> (save_error + string) \<times> blob_store" where
  "blobstore_save = blob_save (Some MAX_IMAGE_SIZE)"

text \<open>Modelled from the spec: \<open>load\<close> of section 4.2 on a blob store: the bytes and mime
  type stored under the id, or \<open>NotFound\<close> (\<open>None\<close>).\<close>

definition blobstore_load :: "blob_store \<Rightarrow> string \<Rightarrow> (byte list \<times> string) option" where
  "blobstore_load store ident =
     (case store ident of
        None \<Rightarrow> None
      | Some r \<Rightarrow> Some (blob_bytes r, blob_mimeType r))"

section \<open>Properties of the file backend\<close>

subsection \<open>Evaluation of characters\<close>

lemma char_eq_char_of: "c = char_of n \<longleftrightarrow> take_bit 8 n = of_char c"
  by (metis char_of_eq_iff)

lemmas char_eval = char_of_eq_iff char_eq_char_of

subsection \<open>Joined paths\<close>

text \<open>
  What \<^verbatim>\<open>path.join\<close> returns when the name is a file name proper: the name follows a
  prefix that ends with a separator (or is empty) and that depends on the directory only;
  for a directory in normal form the result is the directory, a separator and the name.
  The path of a candidate file \<open>{id}{ext}\<close> always ends with the part of the id after
  its last separator, followed by \<open>ext\<close>.
\<close>

lemma split_path_not_Nil: "split_path p \<noteq> []"
  by (induction p) (auto split: list.splits)

lemma split_path_plain: "CHR ''/'' \<notin> set n \<Longrightarrow> split_path n = [n]"
  by (induction n) auto

lemma split_path_append: "split_path (a @ CHR ''/'' # b) = split_path a @ split_path b"
  by (induction a) (auto simp: split_path_not_Nil split: list.splits)

lemma join_segments_split: "join_segments (split_path p) = p"
proof (induction p)
  case Nil
  show ?case by simp
next
  case (Cons c cs)
  obtain s ss where s: "split_path cs = s # ss"
    using split_path_not_Nil[of cs] by (cases "split_path cs") auto
  with Cons show ?case by (cases ss) auto
qed

lemma join_segments_snoc:
  "xs \<noteq> [] \<Longrightarrow> join_segments (xs @ [n]) = join_segments xs @ CHR ''/'' # n"
  by (induction xs rule: join_segments.induct) auto

lemma foldl_normalize_simple:
  "list_all simple_name segs \<Longrightarrow> foldl (normalize_step a) st segs = rev segs @ st"
  by (induction segs arbitrary: st) (auto simp: simple_name_def)

lemma simple_name_last: "simple_name n \<Longrightarrow> last n \<noteq> CHR ''/''"
  by (cases n rule: rev_cases) (auto simp: simple_name_def)

lemma posix_normalize_snoc:
  assumes n: "simple_name n"
  shows "posix_normalize (pre @ CHR ''/'' # n) =
           (if hd (pre @ ''/'') = CHR ''/'' then ''/'' else []) @
           join_segments (rev (n # foldl (normalize_step (hd (pre @ ''/'') \<noteq> CHR ''/'')) []
                                   (split_path pre)))"
proof -
  define joined where "joined = pre @ CHR ''/'' # n"
  define absolute where "absolute = (hd (pre @ ''/'') = CHR ''/'')"
  define kept where "kept = foldl (normalize_step (\<not> absolute)) [] (split_path pre)"
  define res where "res = join_segments (rev (n # kept))"
  from n have n': "n \<noteq> []" "CHR ''/'' \<notin> set n" "n \<noteq> ''.''" "n \<noteq> ''..''"
    by (simp_all add: simple_name_def)
  have sp: "split_path joined = split_path pre @ [n]"
    by (simp add: joined_def split_path_append split_path_plain n')
  have st: "foldl (normalize_step (\<not> absolute)) [] (split_path joined) = n # kept"
    using n' by (simp add: sp kept_def)
  have nres: "normalizeString joined (\<not> absolute) = res"
    unfolding normalizeString_def st res_def ..
  have ne: "res \<noteq> []"
    using n' by (cases "kept = []") (simp_all add: res_def join_segments_snoc)
  have lst: "last joined \<noteq> CHR ''/''"
    using simple_name_last[OF n] n' by (simp add: joined_def)
  have hd: "(hd joined = CHR ''/'') = absolute"
    by (cases pre) (simp_all add: joined_def absolute_def)
  have nj: "joined \<noteq> []" by (simp add: joined_def)
  have "posix_normalize joined = (if absolute then ''/'' else []) @ res"
    using nj ne lst by (simp add: posix_normalize_def Let_def hd nres)
  then show ?thesis by (simp only: res_def kept_def joined_def absolute_def not_not)
qed

lemma posix_normalize_simple:
  assumes n: "simple_name n"
  shows "posix_normalize n = n"
proof -
  from n have n': "n \<noteq> []" "CHR ''/'' \<notin> set n" "n \<noteq> ''.''" "n \<noteq> ''..''"
    by (simp_all add: simple_name_def)
  from n' have h: "hd n \<noteq> CHR ''/''" by (cases n) auto
  from n' h simple_name_last[OF n] show ?thesis
    by (simp add: posix_normalize_def Let_def normalizeString_def split_path_plain)
qed

lemma posix_normalize_last_segment:
  assumes n: "simple_name n"
  shows "\<exists>q. (q = [] \<or> last q = CHR ''/'') \<and> posix_normalize (pre @ CHR ''/'' # n) = q @ n"
proof -
  let ?kept = "foldl (normalize_step (hd (pre @ ''/'') \<noteq> CHR ''/'')) [] (split_path pre)"
  let ?q = "(if hd (pre @ ''/'') = CHR ''/'' then ''/'' else []) @
            (if ?kept = [] then [] else join_segments (rev ?kept) @ ''/'')"
  have "posix_normalize (pre @ CHR ''/'' # n) = ?q @ n"
    unfolding posix_normalize_snoc[OF n]
    by (cases "?kept = []") (simp_all add: join_segments_snoc)
  moreover have "?q = [] \<or> last ?q = CHR ''/''" by simp
  ultimately show ?thesis by blast
qed

lemma path_join_simple:
  assumes n: "simple_name n" and b: "b \<noteq> []"
  shows "path_join b n =
           (if hd b = CHR ''/'' then ''/'' else []) @
           join_segments (rev (n # foldl (normalize_step (hd b \<noteq> CHR ''/'')) [] (split_path b)))"
proof -
  from n have "n \<noteq> []" by (simp add: simple_name_def)
  with b have "path_join b n = posix_normalize (b @ CHR ''/'' # n)"
    by (simp add: path_join_def)
  with posix_normalize_snoc[OF n, of b] b show ?thesis by simp
qed

lemma path_join_canonical:
  assumes b: "canonical_dir b" and n: "simple_name n"
  shows "path_join b n = b @ ''/'' @ n"
proof -
  from b obtain rest where rest: "b = CHR ''/'' # rest" "list_all simple_name (split_path rest)"
    by (auto simp: canonical_dir_def split: list.splits)
  have "foldl (normalize_step False) [] (split_path b) = rev (split_path rest)"
    using rest by (simp add: foldl_normalize_simple)
  with path_join_simple[OF n, of b] rest show ?thesis
    by (simp add: join_segments_snoc split_path_not_Nil join_segments_split)
qed

lemma canonical_dir_shape:
  assumes "canonical_dir b"
  shows "b \<noteq> [] \<and> hd b = CHR ''/'' \<and> 2 \<le> length b"
proof (cases b)
  case Nil
  with assms show ?thesis by (simp add: canonical_dir_def)
next
  case (Cons c rest)
  with assms have c: "c = CHR ''/''" and all: "list_all simple_name (split_path rest)"
    by (simp_all add: canonical_dir_def)
  have "rest \<noteq> []"
  proof
    assume "rest = []"
    with all show False by (simp add: simple_name_def)
  qed
  with Cons c show ?thesis by (cases rest) auto
qed

lemma last_segment_split:
  "\<exists>x s. i = x @ s \<and> CHR ''/'' \<notin> set s \<and> (x = [] \<or> last x = CHR ''/'')"
proof -
  let ?P = "\<lambda>c. c \<noteq> CHR ''/''"
  let ?x = "rev (dropWhile ?P (rev i))" and ?s = "rev (takeWhile ?P (rev i))"
  have "?x @ ?s = rev (takeWhile ?P (rev i) @ dropWhile ?P (rev i))"
    by (simp only: rev_append)
  also have "\<dots> = i" by (simp only: takeWhile_dropWhile_id rev_rev_ident)
  finally have "i = ?x @ ?s" by (rule sym)
  moreover have "CHR ''/'' \<notin> set ?s" by (auto dest: set_takeWhileD)
  moreover have "?x = [] \<or> last ?x = CHR ''/''"
    using hd_dropWhile[of ?P "rev i"] by (auto simp: last_rev)
  ultimately show ?thesis by blast
qed

lemma supported_ext_shape:
  "ext \<in> set SUPPORTED_IMAGE_EXTENSIONS \<Longrightarrow>
     \<exists>e. ext = CHR ''.'' # e \<and> e \<noteq> [] \<and> CHR ''.'' \<notin> set e \<and> CHR ''/'' \<notin> set e"
  by (auto simp: SUPPORTED_IMAGE_EXTENSIONS_def)

lemma simple_name_ext:
  assumes "ext \<in> set SUPPORTED_IMAGE_EXTENSIONS" "CHR ''/'' \<notin> set s"
  shows "simple_name (s @ ext)"
proof -
  from supported_ext_shape[OF assms(1)] obtain e where
    e: "ext = CHR ''.'' # e" "e \<noteq> []" "CHR ''.'' \<notin> set e" "CHR ''/'' \<notin> set e" by blast
  have "s @ ext \<noteq> ''.''" using e by (auto simp: append_eq_Cons_conv)
  moreover have "s @ ext \<noteq> ''..''" using e by (auto simp: append_eq_Cons_conv)
  ultimately show ?thesis using assms(2) e by (simp add: simple_name_def)
qed

lemma path_join_ext_suffix:
  assumes ext: "ext \<in> set SUPPORTED_IMAGE_EXTENSIONS"
  shows "\<exists>q s. path_join b (i @ ext) = q @ s @ ext \<and> (q = [] \<or> last q = CHR ''/'') \<and>
               CHR ''/'' \<notin> set s \<and> (s = [] \<longleftrightarrow> i = [] \<or> last i = CHR ''/'')"
proof -
  from last_segment_split[of i] obtain x s where
    xs: "i = x @ s" "CHR ''/'' \<notin> set s" "x = [] \<or> last x = CHR ''/''" by blast
  have n: "simple_name (s @ ext)" using ext xs(2) by (rule simple_name_ext)
  from supported_ext_shape[OF ext] have ne: "ext \<noteq> []" by auto
  have empty: "s = [] \<longleftrightarrow> i = [] \<or> last i = CHR ''/''"
    using xs by (cases s rule: rev_cases) auto
  have "\<exists>q. (q = [] \<or> last q = CHR ''/'') \<and> path_join b (i @ ext) = q @ (s @ ext)"
  proof (cases "x = []")
    case True
    show ?thesis
    proof (cases "b = []")
      case True
      with \<open>x = []\<close> xs(1) ne have "path_join b (i @ ext) = posix_normalize (s @ ext)"
        by (simp add: path_join_def)
      with posix_normalize_simple[OF n] show ?thesis by simp
    next
      case False
      with \<open>x = []\<close> xs(1) ne have "path_join b (i @ ext) = posix_normalize (b @ CHR ''/'' # (s @ ext))"
        by (simp add: path_join_def)
      with posix_normalize_last_segment[OF n, of b] show ?thesis by auto
    qed
  next
    case False
    with xs(3) obtain x' where x': "x = x' @ ''/''"
      by (cases x rule: rev_cases) auto
    show ?thesis
    proof (cases "b = []")
      case True
      with x' xs(1) have "path_join b (i @ ext) = posix_normalize (x' @ CHR ''/'' # (s @ ext))"
        by (simp add: path_join_def)
      with posix_normalize_last_segment[OF n, of x'] show ?thesis by auto
    next
      case False
      with x' xs(1) have "path_join b (i @ ext) =
          posix_normalize ((b @ CHR ''/'' # x') @ CHR ''/'' # (s @ ext))"
        by (simp add: path_join_def)
      with posix_normalize_last_segment[OF n, of "b @ CHR ''/'' # x'"] show ?thesis by auto
    qed
  qed
  with xs(2) empty show ?thesis by auto
qed

lemma takeWhile_until:
  "c \<notin> set xs \<Longrightarrow> takeWhile (\<lambda>x. x \<noteq> c) (xs @ c # ys) = xs"
  by (induction xs) auto

lemma dropWhile_until:
  "c \<notin> set xs \<Longrightarrow> dropWhile (\<lambda>x. x \<noteq> c) (xs @ c # ys) = c # ys"
  by (induction xs) auto

lemma takeWhile_past:
  "c \<notin> set xs \<Longrightarrow> takeWhile (\<lambda>x. x \<noteq> c) (xs @ ys) = xs @ takeWhile (\<lambda>x. x \<noteq> c) ys"
  by (induction xs) auto

lemma last_portion_append:
  assumes "CHR ''/'' \<notin> set s" "s \<noteq> []"
  shows "last_portion (q @ s) = rev (takeWhile (\<lambda>c. c \<noteq> CHR ''/'') (rev q)) @ s"
proof -
  from assms obtain x xs where xs: "rev s = x # xs" "x \<noteq> CHR ''/''"
    by (cases "rev s") (auto simp: rev_eq_Cons_iff)
  then have "dropWhile (\<lambda>c. c = CHR ''/'') (rev s @ rev q) = rev s @ rev q"
    by simp
  moreover from assms(1)
  have "takeWhile (\<lambda>c. c \<noteq> CHR ''/'') (rev s @ rev q) =
          rev s @ takeWhile (\<lambda>c. c \<noteq> CHR ''/'') (rev q)"
    by (simp add: takeWhile_past)
  ultimately show ?thesis by (simp add: last_portion_def)
qed

lemma last_portion_after_separator:
  assumes "CHR ''/'' \<notin> set s" "s \<noteq> []" "q = [] \<or> last q = CHR ''/''"
  shows "last_portion (q @ s) = s"
proof -
  from assms(3) have "takeWhile (\<lambda>c. c \<noteq> CHR ''/'') (rev q) = []"
    by (cases q rule: rev_cases) auto
  with last_portion_append[OF assms(1,2), of q] show ?thesis by simp
qed

lemma dotdot_split:
  "u @ CHR ''.'' # e = ''..'' \<Longrightarrow> u \<noteq> [] \<Longrightarrow> u = ''.'' \<and> e = []"
  by (cases u) (auto simp: append_eq_Cons_conv)

lemma portion_ext_append:
  assumes "CHR ''.'' \<notin> set e"
  shows "portion_ext (u @ CHR ''.'' # e) =
           (if u = [] \<or> (u = ''.'' \<and> e = []) then [] else CHR ''.'' # e)"
proof -
  from assms have "takeWhile (\<lambda>c. c \<noteq> CHR ''.'') (rev e @ CHR ''.'' # rev u) = rev e"
    by (simp add: takeWhile_until)
  then show ?thesis
    by (auto simp: portion_ext_def Let_def dest: dotdot_split)
qed

text \<open>The extension of a candidate path is the extension it was built with, unless the id
  is empty or ends with a separator: then the file is named by the extension alone and
  \<^verbatim>\<open>path.extname\<close> gives the empty string.\<close>

lemma path_extname_joined:
  assumes ext: "ext \<in> set SUPPORTED_IMAGE_EXTENSIONS"
  shows "path_extname (path_join b (i @ ext)) =
           (if i = [] \<or> last i = CHR ''/'' then [] else ext)"
proof -
  from path_join_ext_suffix[OF ext, of b i] obtain q s where
    qs: "path_join b (i @ ext) = q @ s @ ext" "q = [] \<or> last q = CHR ''/''"
      "CHR ''/'' \<notin> set s" "s = [] \<longleftrightarrow> i = [] \<or> last i = CHR ''/''" by blast
  from supported_ext_shape[OF ext] obtain e where
    e: "ext = CHR ''.'' # e" "e \<noteq> []" "CHR ''.'' \<notin> set e" "CHR ''/'' \<notin> set e" by blast
  from qs(3) e have "CHR ''/'' \<notin> set (s @ ext)" "s @ ext \<noteq> []" by auto
  then have "last_portion (q @ (s @ ext)) = s @ ext"
    using qs(2) by (rule last_portion_after_separator)
  with qs(1) have "path_extname (path_join b (i @ ext)) = portion_ext (s @ CHR ''.'' # e)"
    by (simp add: path_extname_def e(1))
  also have "\<dots> = (if s = [] then [] else ext)"
    using e by (simp add: portion_ext_append)
  finally show ?thesis using qs(4) by simp
qed

lemma path_extname_candidate:
  assumes ext: "ext \<in> set SUPPORTED_IMAGE_EXTENSIONS"
    and i: "i \<noteq> []" "CHR ''/'' \<notin> set i"
  shows "path_extname (path_join b (i @ ext)) = ext"
proof -
  from i have "last i \<noteq> CHR ''/''" by (cases i rule: rev_cases) auto
  with i(1) show ?thesis by (simp add: path_extname_joined[OF ext])
qed


text \<open>The candidate paths of an id in a store directory in normal form.\<close>

lemma candidate_path:
  assumes "canonical_dir b" "ext \<in> set SUPPORTED_IMAGE_EXTENSIONS" "CHR ''/'' \<notin> set i"
  shows "path_join b (i @ ext) = b @ ''/'' @ i @ ext"
  using path_join_canonical[OF assms(1) simple_name_ext[OF assms(2,3)]] by simp

lemma imgs_canonical: "canonical_dir ''/imgs''"
  by (simp add: canonical_dir_def simple_name_def)

lemma imgs_join: "simple_name n \<Longrightarrow> path_join ''/imgs'' n = ''/imgs/'' @ n"
  using path_join_canonical[OF imgs_canonical, of n] by simp

subsection \<open>The store directory\<close>

text \<open>
  \<^verbatim>\<open>ensureDir\<close> touches nothing but the directory and the ancestors it lacks: every entry
  it changes was absent, is a directory afterwards, and has a path no longer than the
  directory's. It fails when the first ancestor that exists is a file. The walk up the
  ancestors ends within the bound that \<open>fs_mkdirSync\<close> gives it.
\<close>

lemma parent_dir_length: "length (parent_dir p) \<le> max 1 (length p)"
proof -
  have "length (dropWhile (\<lambda>c. c \<noteq> CHR ''/'') (rev p)) \<le> length p"
    using length_dropWhile_le[of "\<lambda>c. c \<noteq> CHR ''/''" "rev p"] by simp
  then show ?thesis by (auto simp: parent_dir_def Let_def)
qed

lemma parent_dir_child:
  "b \<noteq> [] \<Longrightarrow> CHR ''/'' \<notin> set n \<Longrightarrow> parent_dir (b @ ''/'' @ n) = b"
  by (simp add: parent_dir_def Let_def dropWhile_until)

lemma mkdir_chain_frame:
  "mkdir_chain k fs p = Inr fs0 \<Longrightarrow>
     fs0 q = fs q \<or> (length q \<le> max 1 (length p) \<and> fs q = None \<and> fs0 q = Some (Dir True))"
proof (induction k arbitrary: p fs0)
  case 0
  then show ?case by simp
next
  case (Suc k)
  show ?case
  proof (cases "fs p")
    case (Some nd)
    with Suc.prems show ?thesis by (cases nd) auto
  next
    case None
    with Suc.prems obtain fs1 where
      fs1: "mkdir_chain k fs (parent_dir p) = Inr fs1" and fs0: "fs0 = fs1(p \<mapsto> Dir True)"
      by (auto split: sum.splits option.splits node.splits if_splits)
    from Suc.IH[OF fs1] parent_dir_length[of p]
    have "fs1 q = fs q \<or> (length q \<le> max 1 (length p) \<and> fs q = None \<and> fs1 q = Some (Dir True))"
      by auto
    with None fs0 show ?thesis by auto
  qed
qed

lemma mkdir_chain_dir:
  "mkdir_chain k fs p = Inr fs0 \<Longrightarrow> \<exists>w. fs0 p = Some (Dir w)"
  by (cases k) (auto split: option.splits node.splits sum.splits if_splits)

lemma mkdir_chain_absent_root:
  "parent_dir p = p \<Longrightarrow> fs p = None \<Longrightarrow> mkdir_chain k fs p = Inl ENOENT"
  by (induction k) simp_all

lemma mkdir_chain_at_root:
  assumes "parent_dir p = p"
  shows "mkdir_chain (Suc k) fs p = mkdir_chain (Suc 0) fs p"
proof (cases "fs p")
  case None
  with assms show ?thesis by (simp only: mkdir_chain_absent_root)
next
  case (Some nd)
  then show ?thesis by (cases nd) simp_all
qed

lemma parent_dir_shorter:
  assumes "parent_dir (parent_dir p) \<noteq> parent_dir p"
  shows "length (parent_dir p) < length p"
proof -
  let ?d = "rev (drop 1 (dropWhile (\<lambda>c. c \<noteq> CHR ''/'') (rev p)))"
  have dot: "parent_dir ''.'' = ''.''" and root: "parent_dir ''/'' = ''/''"
    by (simp_all add: parent_dir_def)
  have slash: "CHR ''/'' \<in> set p"
  proof (rule ccontr)
    assume "CHR ''/'' \<notin> set p"
    then have "parent_dir p = ''.''" by (simp add: parent_dir_def)
    with assms dot show False by simp
  qed
  have dne: "?d \<noteq> []"
  proof
    assume "?d = []"
    with slash have "parent_dir p = ''/''" by (simp add: parent_dir_def Let_def)
    with assms root show False by simp
  qed
  with slash have d: "parent_dir p = ?d" by (simp add: parent_dir_def Let_def)
  from slash have "p \<noteq> []" by auto
  moreover have "length (dropWhile (\<lambda>c. c \<noteq> CHR ''/'') (rev p)) \<le> length p"
    using length_dropWhile_le[of "\<lambda>c. c \<noteq> CHR ''/''" "rev p"] by simp
  ultimately show ?thesis by (simp add: d) (cases p, simp_all)
qed

lemma mkdir_chain_step:
  "length p + 2 \<le> n \<Longrightarrow> mkdir_chain (Suc n) fs p = mkdir_chain n fs p"
proof (induction n arbitrary: p)
  case 0
  then show ?case by simp
next
  case (Suc m)
  have "mkdir_chain (Suc m) fs (parent_dir p) = mkdir_chain m fs (parent_dir p)"
  proof (cases "parent_dir (parent_dir p) = parent_dir p")
    case True
    from Suc.prems obtain m' where m': "m = Suc m'" by (cases m) auto
    from mkdir_chain_at_root[OF True, of "Suc m'" fs] mkdir_chain_at_root[OF True, of m' fs]
    show ?thesis by (simp only: m')
  next
    case False
    from parent_dir_shorter[OF False] Suc.prems
    have "length (parent_dir p) + 2 \<le> m" by simp
    then show ?thesis by (rule Suc.IH)
  qed
  then show ?case by (simp only: mkdir_chain.simps)
qed

text \<open>The bound that \<open>fs_mkdirSync\<close> gives the walk is enough: a larger one changes
  nothing.\<close>

lemma mkdir_chain_bound:
  "mkdir_chain (length p + 2 + k) fs p = mkdir_chain (length p + 2) fs p"
  by (induction k) (simp_all add: mkdir_chain_step del: mkdir_chain.simps)


lemma ensureDir_frame:
  assumes "ensureDir fs b = Inr fs0" "max 1 (length b) < length q"
  shows "fs0 q = fs q"
proof (cases "fs b")
  case None
  with assms(1) have "mkdir_chain (length b + 2) fs b = Inr fs0"
    by (simp add: ensureDir_def fs_existsSync_def fs_mkdirSync_def)
  from mkdir_chain_frame[OF this, of q] assms(2) show ?thesis by auto
next
  case (Some nd)
  with assms(1) show ?thesis by (simp add: ensureDir_def fs_existsSync_def)
qed

lemma ensureDir_dir:
  assumes "ensureDir fs b = Inr fs0"
  shows "fs0 b \<noteq> None \<and> (fs b = None \<longrightarrow> (\<exists>w. fs0 b = Some (Dir w)))"
proof (cases "fs b")
  case None
  with assms(1) have "mkdir_chain (length b + 2) fs b = Inr fs0"
    by (simp add: ensureDir_def fs_existsSync_def fs_mkdirSync_def)
  from mkdir_chain_dir[OF this] show ?thesis by auto
next
  case (Some nd)
  with assms(1) show ?thesis by (auto simp: ensureDir_def fs_existsSync_def)
qed

lemma ensureDir_present: "fs b = Some nd \<Longrightarrow> ensureDir fs b = Inr fs"
  by (simp add: ensureDir_def fs_existsSync_def)

lemma ensureDir_created:
  "fs b = None \<Longrightarrow> fs (parent_dir b) = Some (Dir True) \<Longrightarrow>
     ensureDir fs b = Inr (fs(b \<mapsto> Dir True))"
  by (simp add: ensureDir_def fs_existsSync_def fs_mkdirSync_def)

lemma ensureDir_under_file:
  "fs b = None \<Longrightarrow> fs (parent_dir b) = Some (File bs ok) \<Longrightarrow> ensureDir fs b = Inl ENOTDIR"
  by (simp add: ensureDir_def fs_existsSync_def fs_mkdirSync_def)

subsection \<open>Resolution of an id to a file\<close>

lemma findImageFile_loop_None:
  "findImageFile_loop fs b i exts = None \<longleftrightarrow>
     (\<forall>ext\<in>set exts. \<not> fs_existsSync fs (path_join b (i @ ext)))"
  by (induction exts) (auto simp: Let_def)

lemma findImageFile_loop_cong:
  "(\<forall>ext\<in>set exts. fs2 (path_join b (i @ ext)) = fs (path_join b (i @ ext))) \<Longrightarrow>
   findImageFile_loop fs2 b i exts = findImageFile_loop fs b i exts"
  by (induction exts) (auto simp: Let_def fs_existsSync_def)

lemma findImageFile_loop_mem:
  "findImageFile_loop fs b i exts = Some p \<Longrightarrow>
     \<exists>ext\<in>set exts. p = path_join b (i @ ext) \<and> fs_existsSync fs p"
  by (induction exts) (auto simp: Let_def split: if_splits)

lemma findImageFile_loop_first:
  "findImageFile_loop fs b i exts = Some p \<Longrightarrow>
     \<exists>k<length exts. p = path_join b (i @ exts ! k) \<and> fs_existsSync fs p \<and>
        (\<forall>j<k. \<not> fs_existsSync fs (path_join b (i @ exts ! j)))"
proof (induction exts)
  case Nil
  then show ?case by simp
next
  case (Cons e es)
  show ?case
  proof (cases "fs_existsSync fs (path_join b (i @ e))")
    case True
    with Cons.prems have "p = path_join b (i @ e)" by (simp add: Let_def)
    with True show ?thesis by (intro exI[of _ 0]) simp
  next
    case False
    with Cons.prems have "findImageFile_loop fs b i es = Some p" by (simp add: Let_def)
    from Cons.IH[OF this] obtain k where k: "k < length es" "p = path_join b (i @ es ! k)"
      "fs_existsSync fs p" "\<forall>j<k. \<not> fs_existsSync fs (path_join b (i @ es ! j))" by blast
    have "\<forall>j<Suc k. \<not> fs_existsSync fs (path_join b (i @ (e # es) ! j))"
    proof (intro allI impI)
      fix j assume "j < Suc k"
      show "\<not> fs_existsSync fs (path_join b (i @ (e # es) ! j))"
      proof (cases j)
        case 0 with False show ?thesis by simp
      next
        case (Suc j')
        with \<open>j < Suc k\<close> k(4) show ?thesis by simp
      qed
    qed
    with k show ?thesis by (intro exI[of _ "Suc k"]) simp
  qed
qed

lemma findImageFile_png_first:
  "fs_existsSync fs (path_join b (i @ ''.png'')) \<Longrightarrow>
   findImageFile fs b i = Some (path_join b (i @ ''.png''))"
  by (simp add: findImageFile_def SUPPORTED_IMAGE_EXTENSIONS_def)

lemma findImageFile_cong:
  "(\<forall>ext\<in>set SUPPORTED_IMAGE_EXTENSIONS.
      fs2 (path_join b (i @ ext)) = fs (path_join b (i @ ext))) \<Longrightarrow>
   findImageFile fs2 b i = findImageFile fs b i"
  unfolding findImageFile_def by (rule findImageFile_loop_cong)

lemma findImageFile_candidate:
  "findImageFile fs b i = Some p \<Longrightarrow>
     \<exists>ext\<in>set SUPPORTED_IMAGE_EXTENSIONS. p = path_join b (i @ ext) \<and> fs_existsSync fs p"
  unfolding findImageFile_def by (rule findImageFile_loop_mem)

lemma get_path_eq:
  "CLIPBOARD_IMAGE_GET_PATH fs b i = (Inr (findImageFile fs b i), fs)"
  by (simp add: CLIPBOARD_IMAGE_GET_PATH_def try_catch_def)

lemma load_eq:
  "CLIPBOARD_IMAGE_LOAD fs b i =
     (case findImageFile fs b i of
        None \<Rightarrow> (Inr None, fs)
      | Some p \<Rightarrow>
          (case fs_readFileSync fs p of
             Inl e \<Rightarrow> (Inr None, fs)
           | Inr buffer \<Rightarrow>
               (Inr (Some \<lparr>base64 = base64_encode buffer,
                           mimeType = getMimeFromExt (path_extname p)\<rparr>), fs)))"
  by (simp add: CLIPBOARD_IMAGE_LOAD_def load_try_def try_catch_def
           split: option.splits sum.splits)

lemma delete_eq:
  "CLIPBOARD_IMAGE_DELETE fs b i =
     (case findImageFile fs b i of
        None \<Rightarrow> (Inr False, fs)
      | Some p \<Rightarrow>
          (case fs_unlinkSync fs p of
             Inl e \<Rightarrow> (Inr False, fs)
           | Inr fs1 \<Rightarrow> (Inr True, fs1)))"
  by (simp add: CLIPBOARD_IMAGE_DELETE_def delete_try_def try_catch_def
           split: option.splits sum.splits)

lemma readFileSync_cong: "fs2 p = fs p \<Longrightarrow> fs_readFileSync fs2 p = fs_readFileSync fs p"
  by (simp add: fs_readFileSync_def)

lemma unlinkSync_only:
  "fs_unlinkSync fs p = Inr fs1 \<Longrightarrow> fs1 = fs(p := None)"
  by (auto simp: fs_unlinkSync_def split: option.splits node.splits if_splits)

lemma unlinkSync_cong:
  "fs2 p = fs p \<Longrightarrow> fs2 (parent_dir p) = fs (parent_dir p) \<Longrightarrow>
   (\<exists>e. fs_unlinkSync fs2 p = Inl e) = (\<exists>e. fs_unlinkSync fs p = Inl e)"
  by (simp add: fs_unlinkSync_def split: option.splits node.splits)

text \<open>
  Claim C10. For a fixed directory state and id, get-path, load and delete resolve the id
  to the same file: the first path \<^verbatim>\<open>path.join(basePath, id + ext)\<close> that exists, with
  \<open>ext\<close> taken from the supported list in its order. This holds for every \<open>basePath\<close>
  and every id, the path being the normalised one that \<^verbatim>\<open>path.join\<close> returns. Unless the
  id is empty or ends with a separator, the extension of the file reached is that \<open>ext\<close>,
  one of the list. When nothing exists under any supported extension, get-path and load
  give \<open>null\<close> and delete gives \<open>false\<close>. When the \<^verbatim>\<open>.png\<close> file exists it is the one
  chosen, whatever else exists. Load reads that file only and delete unlinks that file
  only. The results of get-path and load do not depend on any entry of the file system
  other than the seven candidate paths, and the result of delete on none other than these
  and the directories that hold them: a file with another extension is never reached.
\<close>

theorem resolution_consistent:
  "(\<exists>r. CLIPBOARD_IMAGE_GET_PATH fs basePath imageId = (Inr r, fs) \<and>
     (case r of
        None \<Rightarrow>
          (\<forall>ext\<in>set SUPPORTED_IMAGE_EXTENSIONS.
              \<not> fs_existsSync fs (path_join basePath (imageId @ ext))) \<and>
          CLIPBOARD_IMAGE_LOAD fs basePath imageId = (Inr None, fs) \<and>
          CLIPBOARD_IMAGE_DELETE fs basePath imageId = (Inr False, fs)
      | Some p \<Rightarrow>
          (\<exists>k<length SUPPORTED_IMAGE_EXTENSIONS.
              p = path_join basePath (imageId @ SUPPORTED_IMAGE_EXTENSIONS ! k) \<and>
              fs_existsSync fs p \<and>
              (\<forall>j<k. \<not> fs_existsSync fs
                         (path_join basePath (imageId @ SUPPORTED_IMAGE_EXTENSIONS ! j))) \<and>
              (imageId \<noteq> [] \<and> last imageId \<noteq> CHR ''/'' \<longrightarrow>
                 path_extname p = SUPPORTED_IMAGE_EXTENSIONS ! k)) \<and>
          CLIPBOARD_IMAGE_LOAD fs basePath imageId =
            (case fs_readFileSync fs p of
               Inl e \<Rightarrow> (Inr None, fs)
             | Inr buffer \<Rightarrow>
                 (Inr (Some \<lparr>base64 = base64_encode buffer,
                             mimeType = getMimeFromExt (path_extname p)\<rparr>), fs)) \<and>
          CLIPBOARD_IMAGE_DELETE fs basePath imageId =
            (case fs_unlinkSync fs p of
               Inl e \<Rightarrow> (Inr False, fs)
             | Inr fs1 \<Rightarrow> (Inr True, fs(p := None))))) \<and>
   (fs_existsSync fs (path_join basePath (imageId @ ''.png'')) \<longrightarrow>
      CLIPBOARD_IMAGE_GET_PATH fs basePath imageId =
        (Inr (Some (path_join basePath (imageId @ ''.png''))), fs)) \<and>
   (\<forall>fs2. (\<forall>ext\<in>set SUPPORTED_IMAGE_EXTENSIONS.
             fs2 (path_join basePath (imageId @ ext)) = fs (path_join basePath (imageId @ ext)))
        \<longrightarrow> fst (CLIPBOARD_IMAGE_GET_PATH fs2 basePath imageId) =
              fst (CLIPBOARD_IMAGE_GET_PATH fs basePath imageId) \<and>
            fst (CLIPBOARD_IMAGE_LOAD fs2 basePath imageId) =
              fst (CLIPBOARD_IMAGE_LOAD fs basePath imageId) \<and>
            ((\<forall>ext\<in>set SUPPORTED_IMAGE_EXTENSIONS.
                 fs2 (parent_dir (path_join basePath (imageId @ ext))) =
                 fs (parent_dir (path_join basePath (imageId @ ext))))
               \<longrightarrow> fst (CLIPBOARD_IMAGE_DELETE fs2 basePath imageId) =
                     fst (CLIPBOARD_IMAGE_DELETE fs basePath imageId)))"
proof (intro conjI)
  show "\<exists>r. CLIPBOARD_IMAGE_GET_PATH fs basePath imageId = (Inr r, fs) \<and>
     (case r of
        None \<Rightarrow>
          (\<forall>ext\<in>set SUPPORTED_IMAGE_EXTENSIONS.
              \<not> fs_existsSync fs (path_join basePath (imageId @ ext))) \<and>
          CLIPBOARD_IMAGE_LOAD fs basePath imageId = (Inr None, fs) \<and>
          CLIPBOARD_IMAGE_DELETE fs basePath imageId = (Inr False, fs)
      | Some p \<Rightarrow>
          (\<exists>k<length SUPPORTED_IMAGE_EXTENSIONS.
              p = path_join basePath (imageId @ SUPPORTED_IMAGE_EXTENSIONS ! k) \<and>
              fs_existsSync fs p \<and>
              (\<forall>j<k. \<not> fs_existsSync fs
                         (path_join basePath (imageId @ SUPPORTED_IMAGE_EXTENSIONS ! j))) \<and>
              (imageId \<noteq> [] \<and> last imageId \<noteq> CHR ''/'' \<longrightarrow>
                 path_extname p = SUPPORTED_IMAGE_EXTENSIONS ! k)) \<and>
          CLIPBOARD_IMAGE_LOAD fs basePath imageId =
            (case fs_readFileSync fs p of
               Inl e \<Rightarrow> (Inr None, fs)
             | Inr buffer \<Rightarrow>
                 (Inr (Some \<lparr>base64 = base64_encode buffer,
                             mimeType = getMimeFromExt (path_extname p)\<rparr>), fs)) \<and>
          CLIPBOARD_IMAGE_DELETE fs basePath imageId =
            (case fs_unlinkSync fs p of
               Inl e \<Rightarrow> (Inr False, fs)
             | Inr fs1 \<Rightarrow> (Inr True, fs(p := None))))"
  proof (cases "findImageFile fs basePath imageId")
    case None
    then have "\<forall>ext\<in>set SUPPORTED_IMAGE_EXTENSIONS.
              \<not> fs_existsSync fs (path_join basePath (imageId @ ext))"
      by (simp add: findImageFile_def findImageFile_loop_None)
    with None show ?thesis
      by (simp add: get_path_eq load_eq delete_eq)
  next
    case (Some p)
    from Some have "\<exists>k<length SUPPORTED_IMAGE_EXTENSIONS.
              p = path_join basePath (imageId @ SUPPORTED_IMAGE_EXTENSIONS ! k) \<and>
              fs_existsSync fs p \<and>
              (\<forall>j<k. \<not> fs_existsSync fs
                         (path_join basePath (imageId @ SUPPORTED_IMAGE_EXTENSIONS ! j)))"
      unfolding findImageFile_def by (rule findImageFile_loop_first)
    then obtain k where k: "k < length SUPPORTED_IMAGE_EXTENSIONS"
      "p = path_join basePath (imageId @ SUPPORTED_IMAGE_EXTENSIONS ! k)"
      "fs_existsSync fs p"
      "\<forall>j<k. \<not> fs_existsSync fs
                 (path_join basePath (imageId @ SUPPORTED_IMAGE_EXTENSIONS ! j))"
      by blast
    from k(1) have "SUPPORTED_IMAGE_EXTENSIONS ! k \<in> set SUPPORTED_IMAGE_EXTENSIONS"
      by (rule nth_mem)
    from path_extname_joined[OF this, of basePath imageId] k(2)
    have "imageId \<noteq> [] \<and> last imageId \<noteq> CHR ''/'' \<longrightarrow>
            path_extname p = SUPPORTED_IMAGE_EXTENSIONS ! k"
      by simp
    with k have first: "\<exists>k<length SUPPORTED_IMAGE_EXTENSIONS.
              p = path_join basePath (imageId @ SUPPORTED_IMAGE_EXTENSIONS ! k) \<and>
              fs_existsSync fs p \<and>
              (\<forall>j<k. \<not> fs_existsSync fs
                         (path_join basePath (imageId @ SUPPORTED_IMAGE_EXTENSIONS ! j))) \<and>
              (imageId \<noteq> [] \<and> last imageId \<noteq> CHR ''/'' \<longrightarrow>
                 path_extname p = SUPPORTED_IMAGE_EXTENSIONS ! k)"
      by blast
    have del: "(case fs_unlinkSync fs p of Inl e \<Rightarrow> (Inr False, fs) | Inr fs1 \<Rightarrow> (Inr True, fs1))
       = (case fs_unlinkSync fs p of Inl e \<Rightarrow> (Inr False, fs) | Inr fs1 \<Rightarrow> (Inr True, fs(p := None)))"
      by (auto split: sum.splits dest: unlinkSync_only)
    from Some first del show ?thesis
      by (simp add: get_path_eq load_eq delete_eq)
  qed
next
  show "fs_existsSync fs (path_join basePath (imageId @ ''.png'')) \<longrightarrow>
      CLIPBOARD_IMAGE_GET_PATH fs basePath imageId =
        (Inr (Some (path_join basePath (imageId @ ''.png''))), fs)"
    by (simp add: get_path_eq findImageFile_png_first)
next
  show "\<forall>fs2. (\<forall>ext\<in>set SUPPORTED_IMAGE_EXTENSIONS.
             fs2 (path_join basePath (imageId @ ext)) = fs (path_join basePath (imageId @ ext)))
        \<longrightarrow> fst (CLIPBOARD_IMAGE_GET_PATH fs2 basePath imageId) =
              fst (CLIPBOARD_IMAGE_GET_PATH fs basePath imageId) \<and>
            fst (CLIPBOARD_IMAGE_LOAD fs2 basePath imageId) =
              fst (CLIPBOARD_IMAGE_LOAD fs basePath imageId) \<and>
            ((\<forall>ext\<in>set SUPPORTED_IMAGE_EXTENSIONS.
                 fs2 (parent_dir (path_join basePath (imageId @ ext))) =
                 fs (parent_dir (path_join basePath (imageId @ ext))))
               \<longrightarrow> fst (CLIPBOARD_IMAGE_DELETE fs2 basePath imageId) =
                     fst (CLIPBOARD_IMAGE_DELETE fs basePath imageId))"
  proof (intro allI impI conjI)
    fix fs2
    assume agree: "\<forall>ext\<in>set SUPPORTED_IMAGE_EXTENSIONS.
             fs2 (path_join basePath (imageId @ ext)) = fs (path_join basePath (imageId @ ext))"
    then have same: "findImageFile fs2 basePath imageId = findImageFile fs basePath imageId"
      by (rule findImageFile_cong)
    then show "fst (CLIPBOARD_IMAGE_GET_PATH fs2 basePath imageId) =
              fst (CLIPBOARD_IMAGE_GET_PATH fs basePath imageId)"
      by (simp add: get_path_eq)
    show "fst (CLIPBOARD_IMAGE_LOAD fs2 basePath imageId) =
              fst (CLIPBOARD_IMAGE_LOAD fs basePath imageId)"
    proof (cases "findImageFile fs basePath imageId")
      case None
      with same show ?thesis by (simp add: load_eq)
    next
      case (Some p)
      from findImageFile_candidate[OF Some] agree have "fs2 p = fs p" by blast
      then have "fs_readFileSync fs2 p = fs_readFileSync fs p" by (rule readFileSync_cong)
      with Some same show ?thesis by (simp add: load_eq split: sum.splits)
    qed
    assume parents: "\<forall>ext\<in>set SUPPORTED_IMAGE_EXTENSIONS.
                 fs2 (parent_dir (path_join basePath (imageId @ ext))) =
                 fs (parent_dir (path_join basePath (imageId @ ext)))"
    show "fst (CLIPBOARD_IMAGE_DELETE fs2 basePath imageId) =
                     fst (CLIPBOARD_IMAGE_DELETE fs basePath imageId)"
    proof (cases "findImageFile fs basePath imageId")
      case None
      with same show ?thesis by (simp add: delete_eq)
    next
      case (Some p)
      from findImageFile_candidate[OF Some] agree parents
      have "fs2 p = fs p" "fs2 (parent_dir p) = fs (parent_dir p)" by blast+
      then have "(\<exists>e. fs_unlinkSync fs2 p = Inl e) = (\<exists>e. fs_unlinkSync fs p = Inl e)"
        by (rule unlinkSync_cong)
      with Some same show ?thesis
        by (cases "fs_unlinkSync fs2 p"; cases "fs_unlinkSync fs p") (simp_all add: delete_eq)
    qed
  qed
qed

theorem resolution_consistent_witness:
  "fs_existsSync example_store (path_join ''/imgs'' (''a1'' @ ''.png'')) \<and>
   fs_existsSync example_store (path_join ''/imgs'' (''a1'' @ ''.jpg'')) \<and>
   CLIPBOARD_IMAGE_GET_PATH example_store ''/imgs'' ''a1'' =
     (Inr (Some ''/imgs/a1.png''), example_store) \<and>
   CLIPBOARD_IMAGE_LOAD example_store ''/imgs'' ''a1'' =
     (Inr (Some \<lparr>base64 = ''iVBORw=='', mimeType = ''image/png''\<rparr>), example_store) \<and>
   CLIPBOARD_IMAGE_DELETE example_store ''/imgs'' ''a1'' =
     (Inr True, example_store(''/imgs/a1.png'' := None)) \<and>
   fst (CLIPBOARD_IMAGE_LOAD (example_store(''/imgs/a1.tiff'' \<mapsto> File [1] True)) ''/imgs'' ''a1'') =
     Inr (Some \<lparr>base64 = ''iVBORw=='', mimeType = ''image/png''\<rparr>) \<and>
   fst (CLIPBOARD_IMAGE_DELETE (example_store(''/imgs/a1.tiff'' \<mapsto> File [1] True)) ''/imgs'' ''a1'') =
     Inr True \<and>
   fs_existsSync example_store (path_join ''/docs/../imgs/'' (''a1'' @ ''.png'')) \<and>
   CLIPBOARD_IMAGE_GET_PATH example_store ''/docs/../imgs/'' ''a1'' =
     (Inr (Some ''/imgs/a1.png''), example_store)"
proof -
  let ?fs2 = "example_store(''/imgs/a1.tiff'' \<mapsto> File [1] True)"
  have ex: "fs_existsSync example_store (path_join ''/imgs'' (''a1'' @ ''.png''))"
    "fs_existsSync example_store (path_join ''/imgs'' (''a1'' @ ''.jpg''))"
    by (simp_all add: fs_existsSync_def example_store_def imgs_join simple_name_def)
  have pj: "path_join ''/docs/../imgs/'' (''a1'' @ ''.png'') = ''/imgs/a1.png''"
    by (simp add: path_join_def posix_normalize_def normalizeString_def Let_def)
  have ex2: "fs_existsSync example_store (path_join ''/docs/../imgs/'' (''a1'' @ ''.png''))"
    unfolding pj by (simp add: fs_existsSync_def example_store_def)
  have rd: "fs_readFileSync example_store ''/imgs/a1.png'' = Inr [137, 80, 78, 71]"
    by (simp add: fs_readFileSync_def example_store_def)
  have ul: "fs_unlinkSync example_store ''/imgs/a1.png'' = Inr (example_store(''/imgs/a1.png'' := None))"
    by (simp add: fs_unlinkSync_def parent_dir_def Let_def example_store_def)
  have mime: "getMimeFromExt (path_extname ''/imgs/a1.png'') = ''image/png''"
    by (simp add: getMimeFromExt_def path_extname_def last_portion_def portion_ext_def
          toLowerCase_def lower_char_def)
  have agree: "\<forall>ext\<in>set SUPPORTED_IMAGE_EXTENSIONS.
      ?fs2 (path_join ''/imgs'' (''a1'' @ ext)) = example_store (path_join ''/imgs'' (''a1'' @ ext))"
    by (simp add: SUPPORTED_IMAGE_EXTENSIONS_def imgs_join simple_name_def)
  have parents: "\<forall>ext\<in>set SUPPORTED_IMAGE_EXTENSIONS.
      ?fs2 (parent_dir (path_join ''/imgs'' (''a1'' @ ext))) =
      example_store (parent_dir (path_join ''/imgs'' (''a1'' @ ext)))"
    by (simp add: SUPPORTED_IMAGE_EXTENSIONS_def imgs_join simple_name_def parent_dir_def Let_def)
  note main = resolution_consistent [of example_store "''/imgs''" "''a1''"]
  from main [THEN conjunct2, THEN conjunct1] ex(1)
  have gp: "CLIPBOARD_IMAGE_GET_PATH example_store ''/imgs'' ''a1'' =
     (Inr (Some ''/imgs/a1.png''), example_store)"
    by (simp add: imgs_join simple_name_def)
  from resolution_consistent [of example_store "''/docs/../imgs/''" "''a1''",
      THEN conjunct2, THEN conjunct1] ex2
  have gp2: "CLIPBOARD_IMAGE_GET_PATH example_store ''/docs/../imgs/'' ''a1'' =
     (Inr (Some ''/imgs/a1.png''), example_store)"
    by (simp only: pj)
  from main [THEN conjunct1] obtain r where
    r: "CLIPBOARD_IMAGE_GET_PATH example_store ''/imgs'' ''a1'' = (Inr r, example_store)"
    and body: "(case r of
        None \<Rightarrow> CLIPBOARD_IMAGE_LOAD example_store ''/imgs'' ''a1'' = (Inr None, example_store)
      | Some p \<Rightarrow>
          CLIPBOARD_IMAGE_LOAD example_store ''/imgs'' ''a1'' =
            (case fs_readFileSync example_store p of
               Inl e \<Rightarrow> (Inr None, example_store)
             | Inr buffer \<Rightarrow>
                 (Inr (Some \<lparr>base64 = base64_encode buffer,
                             mimeType = getMimeFromExt (path_extname p)\<rparr>), example_store)) \<and>
          CLIPBOARD_IMAGE_DELETE example_store ''/imgs'' ''a1'' =
            (case fs_unlinkSync example_store p of
               Inl e \<Rightarrow> (Inr False, example_store)
             | Inr fs1 \<Rightarrow> (Inr True, example_store(p := None))))"
    by (auto split: option.splits)
  from r gp have r_eq: "r = Some ''/imgs/a1.png''" by simp
  from body have ld: "CLIPBOARD_IMAGE_LOAD example_store ''/imgs'' ''a1'' =
     (Inr (Some \<lparr>base64 = ''iVBORw=='', mimeType = ''image/png''\<rparr>), example_store)"
    unfolding r_eq by (simp add: rd mime base64_char_def char_eval)
  from body have dl: "CLIPBOARD_IMAGE_DELETE example_store ''/imgs'' ''a1'' =
     (Inr True, example_store(''/imgs/a1.png'' := None))"
    unfolding r_eq by (simp add: ul)
  note indep = main [THEN conjunct2, THEN conjunct2, THEN spec [where x = ?fs2], THEN mp, OF agree]
  from indep [THEN conjunct2, THEN conjunct1] ld
  have ld2: "fst (CLIPBOARD_IMAGE_LOAD ?fs2 ''/imgs'' ''a1'') =
     Inr (Some \<lparr>base64 = ''iVBORw=='', mimeType = ''image/png''\<rparr>)"
    by simp
  from indep [THEN conjunct2, THEN conjunct2, THEN mp, OF parents] dl
  have dl2: "fst (CLIPBOARD_IMAGE_DELETE ?fs2 ''/imgs'' ''a1'') = Inr True"
    by simp
  from ex gp ld dl ld2 dl2 ex2 gp2 show ?thesis by simp
qed

subsection \<open>Stores built by save and delete\<close>

text \<open>
  An id names one image, kept in one file. The handlers keep it so in a store directory
  that only they write: a save under a new id leaves every id with at most one file, and
  a delete never gives an id a second file.
\<close>

lemma writeFileSync_result:
  "fs_writeFileSync fs p bs = Inr fs1 \<Longrightarrow> fs1 = fs(p \<mapsto> File bs True)"
  by (auto simp: fs_writeFileSync_def split: option.splits node.splits if_splits)

lemma save_eq:
  "CLIPBOARD_IMAGE_SAVE fs b name data =
     (case ensureDir fs b of
        Inl e \<Rightarrow> (Inl e, fs)
      | Inr fs0 \<Rightarrow>
          (case fs_writeFileSync fs0 (path_join b name) (base64_decode data) of
             Inl e \<Rightarrow> (Inl e, fs0)
           | Inr fs1 \<Rightarrow> (Inr (path_join b name), fs1)))"
  by (simp add: CLIPBOARD_IMAGE_SAVE_def save_try_def try_catch_def Let_def
        split: sum.splits)

lemma save_Inr:
  assumes "CLIPBOARD_IMAGE_SAVE fs b name data = (Inr p, fs1)"
  shows "p = path_join b name \<and>
         (\<exists>fs0. ensureDir fs b = Inr fs0 \<and> fs1 = fs0(p \<mapsto> File (base64_decode data) True))"
  using assms
  by (auto simp: save_eq split: sum.splits dest: writeFileSync_result)

lemma ensureDir_child:
  assumes "ensureDir fs b = Inr fs0" "b \<noteq> []"
  shows "fs0 (b @ ''/'' @ n) = fs (b @ ''/'' @ n)"
  using assms(2) by (intro ensureDir_frame[OF assms(1)]) (cases b, simp_all)

lemma ext_suffix_unique:
  assumes "e1 \<in> set SUPPORTED_IMAGE_EXTENSIONS" "e2 \<in> set SUPPORTED_IMAGE_EXTENSIONS"
    and eq: "i @ e1 = j @ e2"
  shows "e1 = e2 \<and> i = j"
proof -
  from supported_ext_shape[OF assms(1)] obtain a where
    a: "e1 = CHR ''.'' # a" "CHR ''.'' \<notin> set a" by blast
  from supported_ext_shape[OF assms(2)] obtain c where
    c: "e2 = CHR ''.'' # c" "CHR ''.'' \<notin> set c" by blast
  have "rev a = takeWhile (\<lambda>x. x \<noteq> CHR ''.'') (rev (i @ e1))"
    using a by (simp add: takeWhile_until)
  also have "\<dots> = takeWhile (\<lambda>x. x \<noteq> CHR ''.'') (rev (j @ e2))"
    by (simp only: eq)
  also have "\<dots> = rev c"
    using c by (simp add: takeWhile_until)
  finally have "e1 = e2" using a(1) c(1) by simp
  with eq show ?thesis by simp
qed

lemma sole_file_fresh_save:
  assumes dir: "canonical_dir b" and i: "CHR ''/'' \<notin> set i"
    and ext: "ext \<in> set SUPPORTED_IMAGE_EXTENSIONS"
    and fresh: "\<forall>e\<in>set SUPPORTED_IMAGE_EXTENSIONS.
                  \<not> fs_existsSync fs (path_join b (i @ e))"
    and save: "CLIPBOARD_IMAGE_SAVE fs b (i @ ext) data = (Inr p, fs1)"
  shows "sole_file fs1 b i"
proof -
  from save_Inr[OF save] obtain fs0 where
    p: "p = path_join b (i @ ext)" and e: "ensureDir fs b = Inr fs0"
    and fs1: "fs1 = fs0(p \<mapsto> File (base64_decode data) True)" by blast
  from canonical_dir_shape[OF dir] have b: "b \<noteq> []" by simp
  have only: "e' = ext"
    if "e' \<in> set SUPPORTED_IMAGE_EXTENSIONS" "fs_existsSync fs1 (path_join b (i @ e'))" for e'
  proof (rule ccontr)
    assume "e' \<noteq> ext"
    then have "path_join b (i @ e') \<noteq> p"
      by (simp add: p candidate_path[OF dir _ i] that(1) ext)
    then have "fs1 (path_join b (i @ e')) = fs (path_join b (i @ e'))"
      using ensureDir_child[OF e b, of "i @ e'"]
      by (simp add: fs1 candidate_path[OF dir that(1) i])
    with fresh that show False by (simp add: fs_existsSync_def)
  qed
  show ?thesis
    unfolding sole_file_def list_all_iff by (blast dest: only)
qed

lemma save_keeps_sole_file:
  assumes dir: "canonical_dir b" and i: "CHR ''/'' \<notin> set i" and j: "CHR ''/'' \<notin> set j"
    and ext: "ext \<in> set SUPPORTED_IMAGE_EXTENSIONS"
    and fresh: "\<forall>e\<in>set SUPPORTED_IMAGE_EXTENSIONS.
                  \<not> fs_existsSync fs (path_join b (i @ e))"
    and save: "CLIPBOARD_IMAGE_SAVE fs b (i @ ext) data = (Inr p, fs1)"
    and sole: "sole_file fs b j"
  shows "sole_file fs1 b j"
proof (cases "j = i")
  case True
  with sole_file_fresh_save[OF dir i ext fresh save] show ?thesis by simp
next
  case False
  from save_Inr[OF save] obtain fs0 where
    p: "p = path_join b (i @ ext)" and e: "ensureDir fs b = Inr fs0"
    and fs1: "fs1 = fs0(p \<mapsto> File (base64_decode data) True)" by blast
  from canonical_dir_shape[OF dir] have b: "b \<noteq> []" by simp
  have same: "fs_existsSync fs1 (path_join b (j @ e')) = fs_existsSync fs (path_join b (j @ e'))"
    if e': "e' \<in> set SUPPORTED_IMAGE_EXTENSIONS" for e'
  proof -
    from ext_suffix_unique[OF e' ext, of j i] False have "j @ e' \<noteq> i @ ext" by blast
    then have "path_join b (j @ e') \<noteq> p"
      by (simp add: p candidate_path[OF dir ext i] candidate_path[OF dir e' j])
    then have "fs1 (path_join b (j @ e')) = fs (path_join b (j @ e'))"
      using ensureDir_child[OF e b, of "j @ e'"]
      by (simp add: fs1 candidate_path[OF dir e' j])
    then show ?thesis by (simp add: fs_existsSync_def)
  qed
  from sole show ?thesis
    unfolding sole_file_def list_all_iff by (simp add: same)
qed

lemma delete_keeps_sole_file:
  assumes "sole_file fs b j"
  shows "sole_file (snd (CLIPBOARD_IMAGE_DELETE fs b i)) b j"
proof -
  have sub: "fs_existsSync (snd (CLIPBOARD_IMAGE_DELETE fs b i)) q \<Longrightarrow> fs_existsSync fs q" for q
    by (auto simp: delete_eq fs_existsSync_def split: option.splits sum.splits if_splits
          dest!: unlinkSync_only)
  from assms show ?thesis
    unfolding sole_file_def list_all_iff by (blast dest: sub)
qed

subsection \<open>Load and delete on missing, unreadable and deleted ids\<close>

lemma findImageFile_None_iff:
  "findImageFile fs b i = None \<longleftrightarrow>
     (\<forall>ext\<in>set SUPPORTED_IMAGE_EXTENSIONS. \<not> fs_existsSync fs (path_join b (i @ ext)))"
  by (simp add: findImageFile_def findImageFile_loop_None)

lemma delete_True:
  assumes "CLIPBOARD_IMAGE_DELETE fs b i = (Inr True, fs1)"
  shows "\<exists>p. findImageFile fs b i = Some p \<and> fs1 = fs(p := None)"
proof (cases "findImageFile fs b i")
  case None
  with assms show ?thesis by (simp add: delete_eq)
next
  case (Some p)
  with assms have "fs_unlinkSync fs p = Inr fs1"
    by (auto simp: delete_eq split: sum.splits)
  then have "fs1 = fs(p := None)" by (rule unlinkSync_only)
  with Some show ?thesis by simp
qed

lemma delete_sole_leaves_none:
  assumes del: "CLIPBOARD_IMAGE_DELETE fs b i = (Inr True, fs1)"
    and sole: "sole_file fs b i"
  shows "findImageFile fs1 b i = None"
proof -
  from delete_True[OF del] obtain p where p: "findImageFile fs b i = Some p" "fs1 = fs(p := None)"
    by blast
  from findImageFile_candidate[OF p(1)] obtain e where
    e: "e \<in> set SUPPORTED_IMAGE_EXTENSIONS" "p = path_join b (i @ e)" "fs_existsSync fs p"
    by blast
  have "\<not> fs_existsSync fs1 (path_join b (i @ e2))"
    if e2: "e2 \<in> set SUPPORTED_IMAGE_EXTENSIONS" for e2
  proof
    assume ex: "fs_existsSync fs1 (path_join b (i @ e2))"
    with p(2) have ne: "path_join b (i @ e2) \<noteq> p" and ex0: "fs_existsSync fs (path_join b (i @ e2))"
      by (auto simp: fs_existsSync_def split: if_splits)
    from sole e(1) e2 e(2,3) ex0 have "e = e2"
      by (auto simp: sole_file_def list_all_iff)
    with ne e(2) show False by simp
  qed
  then show ?thesis by (simp add: findImageFile_None_iff)
qed

lemma example_b2_delete:
  "CLIPBOARD_IMAGE_DELETE example_store ''/imgs'' ''b2'' =
     (Inr True, example_store(''/imgs/b2.gif'' := None))"
  by (simp add: delete_eq findImageFile_def SUPPORTED_IMAGE_EXTENSIONS_def imgs_join
        simple_name_def fs_existsSync_def fs_unlinkSync_def parent_dir_def Let_def
        example_store_def)

lemma example_b2_sole: "sole_file example_store ''/imgs'' ''b2''"
  by (simp add: sole_file_def SUPPORTED_IMAGE_EXTENSIONS_def imgs_join simple_name_def
        fs_existsSync_def example_store_def)

text \<open>
  Claim C4. Load never raises: for every directory state and every id it resolves to a
  result, and the directory is left as it was. It resolves to \<open>null\<close> for every id that
  has no file under any supported extension (an id that was never saved), and whenever
  reading the file the id resolves to fails. After a successful delete of an id, load of
  that id resolves to \<open>null\<close>; here the id names one image kept in one file, as it does
  in every store built by saves under new ids and by deletes.
\<close>

theorem load_total:
  "(\<exists>r. CLIPBOARD_IMAGE_LOAD fs basePath imageId = (Inr r, fs)) \<and>
   ((\<forall>ext\<in>set SUPPORTED_IMAGE_EXTENSIONS.
        \<not> fs_existsSync fs (path_join basePath (imageId @ ext)))
      \<longrightarrow> CLIPBOARD_IMAGE_LOAD fs basePath imageId = (Inr None, fs)) \<and>
   (\<forall>p e. findImageFile fs basePath imageId = Some p \<and> fs_readFileSync fs p = Inl e
      \<longrightarrow> CLIPBOARD_IMAGE_LOAD fs basePath imageId = (Inr None, fs)) \<and>
   (\<forall>fs1. CLIPBOARD_IMAGE_DELETE fs basePath imageId = (Inr True, fs1) \<and>
          sole_file fs basePath imageId
      \<longrightarrow> CLIPBOARD_IMAGE_LOAD fs1 basePath imageId = (Inr None, fs1))"
proof (intro conjI allI impI)
  show "\<exists>r. CLIPBOARD_IMAGE_LOAD fs basePath imageId = (Inr r, fs)"
    by (simp add: load_eq split: option.splits sum.splits)
next
  assume "\<forall>ext\<in>set SUPPORTED_IMAGE_EXTENSIONS.
        \<not> fs_existsSync fs (path_join basePath (imageId @ ext))"
  then have "findImageFile fs basePath imageId = None"
    by (simp add: findImageFile_None_iff)
  then show "CLIPBOARD_IMAGE_LOAD fs basePath imageId = (Inr None, fs)"
    by (simp add: load_eq)
next
  fix p e
  assume "findImageFile fs basePath imageId = Some p \<and> fs_readFileSync fs p = Inl e"
  then show "CLIPBOARD_IMAGE_LOAD fs basePath imageId = (Inr None, fs)"
    by (simp add: load_eq)
next
  fix fs1
  assume "CLIPBOARD_IMAGE_DELETE fs basePath imageId = (Inr True, fs1) \<and>
          sole_file fs basePath imageId"
  then have "findImageFile fs1 basePath imageId = None"
    by (blast intro: delete_sole_leaves_none)
  then show "CLIPBOARD_IMAGE_LOAD fs1 basePath imageId = (Inr None, fs1)"
    by (simp add: load_eq)
qed

theorem load_total_witness:
  "list_all (\<lambda>ext. \<not> fs_existsSync example_store (path_join ''/imgs'' (''zz'' @ ext)))
     SUPPORTED_IMAGE_EXTENSIONS \<and>
   CLIPBOARD_IMAGE_LOAD example_store ''/imgs'' ''zz'' = (Inr None, example_store) \<and>
   findImageFile example_store ''/imgs'' ''e5'' = Some ''/imgs/e5.webp'' \<and>
   fs_readFileSync example_store ''/imgs/e5.webp'' = Inl EACCES \<and>
   CLIPBOARD_IMAGE_LOAD example_store ''/imgs'' ''e5'' = (Inr None, example_store) \<and>
   CLIPBOARD_IMAGE_DELETE example_store ''/imgs'' ''b2'' =
     (Inr True, example_store(''/imgs/b2.gif'' := None)) \<and>
   sole_file example_store ''/imgs'' ''b2'' \<and>
   CLIPBOARD_IMAGE_LOAD (example_store(''/imgs/b2.gif'' := None)) ''/imgs'' ''b2'' =
     (Inr None, example_store(''/imgs/b2.gif'' := None))"
proof -
  have none: "\<forall>ext\<in>set SUPPORTED_IMAGE_EXTENSIONS.
      \<not> fs_existsSync example_store (path_join ''/imgs'' (''zz'' @ ext))"
    by (simp add: SUPPORTED_IMAGE_EXTENSIONS_def imgs_join simple_name_def fs_existsSync_def
          example_store_def)
  have found: "findImageFile example_store ''/imgs'' ''e5'' = Some ''/imgs/e5.webp''"
    by (simp add: findImageFile_def SUPPORTED_IMAGE_EXTENSIONS_def imgs_join simple_name_def
          fs_existsSync_def example_store_def)
  have rd: "fs_readFileSync example_store ''/imgs/e5.webp'' = Inl EACCES"
    by (simp add: fs_readFileSync_def example_store_def)
  from load_total [of example_store "''/imgs''" "''zz''", THEN conjunct2, THEN conjunct1] none
  have l1: "CLIPBOARD_IMAGE_LOAD example_store ''/imgs'' ''zz'' = (Inr None, example_store)"
    by blast
  from load_total [of example_store "''/imgs''" "''e5''", THEN conjunct2, THEN conjunct2,
      THEN conjunct1] found rd
  have l2: "CLIPBOARD_IMAGE_LOAD example_store ''/imgs'' ''e5'' = (Inr None, example_store)"
    by blast
  from load_total [of example_store "''/imgs''" "''b2''", THEN conjunct2, THEN conjunct2,
      THEN conjunct2] example_b2_delete example_b2_sole
  have l3: "CLIPBOARD_IMAGE_LOAD (example_store(''/imgs/b2.gif'' := None)) ''/imgs'' ''b2'' =
     (Inr None, example_store(''/imgs/b2.gif'' := None))"
    by blast
  from none have none': "list_all (\<lambda>ext. \<not> fs_existsSync example_store
      (path_join ''/imgs'' (''zz'' @ ext))) SUPPORTED_IMAGE_EXTENSIONS"
    by (simp add: list_all_iff)
  from none' l1 found rd l2 example_b2_delete example_b2_sole l3 show ?thesis by blast
qed

text \<open>
  Claim C5. Delete is total and idempotent: for every directory state and every id it
  resolves to a boolean and never raises. For an id with no file under any supported
  extension it resolves to \<open>false\<close> and changes nothing. A delete that resolves to \<open>true\<close>
  has removed exactly the file that get-path gives for the id, and a second delete of the
  same id then resolves to \<open>false\<close> and changes nothing; here again the id names one image
  kept in one file, as it does in every store built by saves under new ids and by deletes.
\<close>

theorem delete_total:
  "(\<exists>r fs1. CLIPBOARD_IMAGE_DELETE fs basePath imageId = (Inr r, fs1)) \<and>
   ((\<forall>ext\<in>set SUPPORTED_IMAGE_EXTENSIONS.
        \<not> fs_existsSync fs (path_join basePath (imageId @ ext)))
      \<longrightarrow> CLIPBOARD_IMAGE_DELETE fs basePath imageId = (Inr False, fs)) \<and>
   (\<forall>fs1. CLIPBOARD_IMAGE_DELETE fs basePath imageId = (Inr True, fs1)
      \<longrightarrow> (\<exists>p. CLIPBOARD_IMAGE_GET_PATH fs basePath imageId = (Inr (Some p), fs) \<and>
               fs1 = fs(p := None))) \<and>
   (\<forall>fs1. CLIPBOARD_IMAGE_DELETE fs basePath imageId = (Inr True, fs1) \<and>
          sole_file fs basePath imageId
      \<longrightarrow> CLIPBOARD_IMAGE_DELETE fs1 basePath imageId = (Inr False, fs1))"
proof (intro conjI allI impI)
  show "\<exists>r fs1. CLIPBOARD_IMAGE_DELETE fs basePath imageId = (Inr r, fs1)"
    by (auto simp: delete_eq split: option.splits sum.splits)
next
  assume "\<forall>ext\<in>set SUPPORTED_IMAGE_EXTENSIONS.
        \<not> fs_existsSync fs (path_join basePath (imageId @ ext))"
  then have "findImageFile fs basePath imageId = None"
    by (simp add: findImageFile_None_iff)
  then show "CLIPBOARD_IMAGE_DELETE fs basePath imageId = (Inr False, fs)"
    by (simp add: delete_eq)
next
  fix fs1
  assume "CLIPBOARD_IMAGE_DELETE fs basePath imageId = (Inr True, fs1)"
  from delete_True[OF this]
  show "\<exists>p. CLIPBOARD_IMAGE_GET_PATH fs basePath imageId = (Inr (Some p), fs) \<and>
               fs1 = fs(p := None)"
    by (simp add: get_path_eq)
next
  fix fs1
  assume "CLIPBOARD_IMAGE_DELETE fs basePath imageId = (Inr True, fs1) \<and>
          sole_file fs basePath imageId"
  then have "findImageFile fs1 basePath imageId = None"
    by (blast intro: delete_sole_leaves_none)
  then show "CLIPBOARD_IMAGE_DELETE fs1 basePath imageId = (Inr False, fs1)"
    by (simp add: delete_eq)
qed

theorem delete_total_witness:
  "list_all (\<lambda>ext. \<not> fs_existsSync example_store (path_join ''/imgs'' (''zz'' @ ext)))
     SUPPORTED_IMAGE_EXTENSIONS \<and>
   CLIPBOARD_IMAGE_DELETE example_store ''/imgs'' ''zz'' = (Inr False, example_store) \<and>
   CLIPBOARD_IMAGE_DELETE example_store ''/imgs'' ''b2'' =
     (Inr True, example_store(''/imgs/b2.gif'' := None)) \<and>
   sole_file example_store ''/imgs'' ''b2'' \<and>
   CLIPBOARD_IMAGE_GET_PATH example_store ''/imgs'' ''b2'' =
     (Inr (Some ''/imgs/b2.gif''), example_store) \<and>
   CLIPBOARD_IMAGE_DELETE (example_store(''/imgs/b2.gif'' := None)) ''/imgs'' ''b2'' =
     (Inr False, example_store(''/imgs/b2.gif'' := None))"
proof -
  have none: "\<forall>ext\<in>set SUPPORTED_IMAGE_EXTENSIONS.
      \<not> fs_existsSync example_store (path_join ''/imgs'' (''zz'' @ ext))"
    by (simp add: SUPPORTED_IMAGE_EXTENSIONS_def imgs_join simple_name_def fs_existsSync_def
          example_store_def)
  from delete_total [of example_store "''/imgs''" "''zz''", THEN conjunct2, THEN conjunct1] none
  have d1: "CLIPBOARD_IMAGE_DELETE example_store ''/imgs'' ''zz'' = (Inr False, example_store)"
    by blast
  have d0: "CLIPBOARD_IMAGE_DELETE example_store ''/imgs'' ''b2'' =
     (Inr True, example_store(''/imgs/b2.gif'' := None))"
    by (rule example_b2_delete)
  have gp: "CLIPBOARD_IMAGE_GET_PATH example_store ''/imgs'' ''b2'' =
     (Inr (Some ''/imgs/b2.gif''), example_store)"
    by (simp add: get_path_eq findImageFile_def SUPPORTED_IMAGE_EXTENSIONS_def imgs_join
          simple_name_def fs_existsSync_def example_store_def)
  from delete_total [of example_store "''/imgs''" "''b2''", THEN conjunct2, THEN conjunct2,
      THEN conjunct2] d0 example_b2_sole
  have d2: "CLIPBOARD_IMAGE_DELETE (example_store(''/imgs/b2.gif'' := None)) ''/imgs'' ''b2'' =
     (Inr False, example_store(''/imgs/b2.gif'' := None))"
    by blast
  from none have none': "list_all (\<lambda>ext. \<not> fs_existsSync example_store
      (path_join ''/imgs'' (''zz'' @ ext))) SUPPORTED_IMAGE_EXTENSIONS"
    by (simp add: list_all_iff)
  from none' d1 d0 example_b2_sole gp d2 show ?thesis by blast
qed

subsection \<open>The base64 codec is lossless\<close>

text \<open>Every sextet the encoder produces is below 64, the decoder's table inverts the
  encoder's, and the decoder's shifts put the bytes back together: decoding an encoded
  buffer gives the buffer.\<close>

lemma mask_63: "(63 :: byte) = mask 6" by (simp add: mask_eq_exp_minus_1)
lemma mask_3: "(3 :: byte) = mask 2" by (simp add: mask_eq_exp_minus_1)
lemma mask_15: "(15 :: byte) = mask 4" by (simp add: mask_eq_exp_minus_1)

lemma bit_position_cases: "n < 8 \<Longrightarrow> n \<in> {0, 1, 2, 3, 4, 5, 6, 7 :: nat}"
  by auto

lemma sextet_bound: "s AND mask 6 = s \<Longrightarrow> unat (s :: byte) < 64"
proof -
  assume "s AND mask 6 = s"
  then have "s = take_bit 6 s" by (simp add: take_bit_eq_mask)
  then have "unat s = take_bit 6 (unat s)" by (metis unsigned_take_bit_eq)
  also have "\<dots> < 2 ^ 6" by (rule take_bit_nat_less_exp)
  finally show ?thesis by simp
qed

lemma byte_eqI: "(\<And>n. n < 8 \<Longrightarrow> bit (x :: byte) n = bit y n) \<Longrightarrow> x = y"
  by (rule bit_word_eqI) simp

lemma sextet0_bound: "unat (drop_bit 2 (a :: byte)) < 64"
  apply (rule sextet_bound)
  apply (rule byte_eqI)
  apply (drule bit_position_cases)
  apply (auto simp: bit_simps numeral_2_eq_2[symmetric] numeral_3_eq_3[symmetric] dest: bit_imp_le_length)
  done

lemma sextet1_bound: "unat (push_bit 4 ((a :: byte) AND 3) OR drop_bit 4 (b :: byte)) < 64"
  unfolding mask_3
  apply (rule sextet_bound)
  apply (rule byte_eqI)
  apply (drule bit_position_cases)
  apply (auto simp: bit_simps numeral_2_eq_2[symmetric] numeral_3_eq_3[symmetric] dest: bit_imp_le_length)
  done

lemma sextet2_bound: "unat (push_bit 2 ((b :: byte) AND 15) OR drop_bit 6 (c :: byte)) < 64"
  unfolding mask_15
  apply (rule sextet_bound)
  apply (rule byte_eqI)
  apply (drule bit_position_cases)
  apply (auto simp: bit_simps numeral_2_eq_2[symmetric] numeral_3_eq_3[symmetric] dest: bit_imp_le_length)
  done

lemma sextet3_bound: "unat ((c :: byte) AND 63) < 64"
  unfolding mask_63 by (rule sextet_bound) (rule bit_word_eqI, auto simp: bit_simps)

lemma sextet1_pad_bound: "unat (push_bit 4 ((a :: byte) AND 3)) < 64"
  unfolding mask_3 by (rule sextet_bound) (rule bit_word_eqI, auto simp: bit_simps)

lemma sextet2_pad_bound: "unat (push_bit 2 ((b :: byte) AND 15)) < 64"
  unfolding mask_15 by (rule sextet_bound) (rule bit_word_eqI, auto simp: bit_simps)

lemma byte0_restored: "push_bit 2 (drop_bit 2 a) OR drop_bit 4 (push_bit 4 (a AND 3) OR drop_bit 4 b) = (a :: byte)"
  unfolding mask_3
  apply (rule byte_eqI)
  apply (drule bit_position_cases)
  apply (auto simp: bit_simps numeral_2_eq_2[symmetric] numeral_3_eq_3[symmetric] dest: bit_imp_le_length)
  done

lemma byte0_restored_pad: "push_bit 2 (drop_bit 2 a) OR drop_bit 4 (push_bit 4 (a AND 3)) = (a :: byte)"
  unfolding mask_3
  apply (rule byte_eqI)
  apply (drule bit_position_cases)
  apply (auto simp: bit_simps numeral_2_eq_2[symmetric] numeral_3_eq_3[symmetric] dest: bit_imp_le_length)
  done

lemma byte1_restored: "push_bit 4 ((push_bit 4 (a AND 3) OR drop_bit 4 b) AND 15)
     OR drop_bit 2 (push_bit 2 (b AND 15) OR drop_bit 6 c) = (b :: byte)"
  unfolding mask_3 mask_15
  apply (rule byte_eqI)
  apply (drule bit_position_cases)
  apply (auto simp: bit_simps numeral_2_eq_2[symmetric] numeral_3_eq_3[symmetric] dest: bit_imp_le_length)
  done

lemma byte1_restored_pad: "push_bit 4 ((push_bit 4 (a AND 3) OR drop_bit 4 b) AND 15)
     OR drop_bit 2 (push_bit 2 (b AND 15)) = (b :: byte)"
  unfolding mask_3 mask_15
  apply (rule byte_eqI)
  apply (drule bit_position_cases)
  apply (auto simp: bit_simps numeral_2_eq_2[symmetric] numeral_3_eq_3[symmetric] dest: bit_imp_le_length)
  done

lemma byte2_restored: "push_bit 6 ((push_bit 2 (b AND 15) OR drop_bit 6 c) AND 3) OR (c AND 63) = (c :: byte)"
  unfolding mask_3 mask_15 mask_63
  apply (rule byte_eqI)
  apply (drule bit_position_cases)
  apply (auto simp: bit_simps numeral_2_eq_2[symmetric] numeral_3_eq_3[symmetric] dest: bit_imp_le_length)
  done

lemma unbase64_base64_char:
  assumes "unat s < 64"
  shows "unbase64 (base64_char s) = Some s"
proof -
  define n where "n = unat s"
  have s: "s = of_nat n" by (simp add: n_def)
  from assms have n: "n < 64" by (simp add: n_def)
  consider "n < 26" | "26 \<le> n" "n < 52" | "52 \<le> n" "n < 62" | "n = 62" | "n = 63"
    using n by arith
  then have "unbase64 (base64_char (of_nat n)) = Some (of_nat n :: byte)"
  proof cases
    case 1
    then show ?thesis
      by (simp add: base64_char_def unbase64_def Let_def unat_of_nat)
  next
    case 2
    then show ?thesis
      by (simp add: base64_char_def unbase64_def Let_def unat_of_nat)
  next
    case 3
    then have enc: "base64_char (of_nat n) = char_of (n - 4)"
      by (simp add: base64_char_def Let_def unat_of_nat)
    define m where "m = n - 4"
    from 3 have m: "48 \<le> m" "m \<le> 57" "n = m + 4" by (simp_all add: m_def)
    from m(1,2) have "unbase64 (char_of m) = Some (of_nat (m + 4))"
      by (simp add: unbase64_def Let_def)
    with enc m(3) show ?thesis unfolding m_def by simp
  next
    case 4
    then show ?thesis
      by (simp add: base64_char_def unbase64_def Let_def)
  next
    case 5
    then show ?thesis
      by (simp add: base64_char_def unbase64_def Let_def)
  qed
  then show ?thesis by (simp add: s)
qed

lemma base64_char_not_pad:
  assumes "unat s < 64"
  shows "base64_char s \<noteq> CHR ''=''"
proof
  assume "base64_char s = CHR ''=''"
  then have "unbase64 (base64_char s) = None" by (simp add: unbase64_def)
  with unbase64_base64_char[OF assms] show False by simp
qed

lemma sextets_step:
  "unat s < 64 \<Longrightarrow>
   List.map_filter unbase64 (takeWhile (\<lambda>c. c \<noteq> CHR ''='') (base64_char s # rest)) =
   s # List.map_filter unbase64 (takeWhile (\<lambda>c. c \<noteq> CHR ''='') rest)"
  by (simp add: base64_char_not_pad unbase64_base64_char map_filter_simps)

lemma sextets_pad:
  "List.map_filter unbase64 (takeWhile (\<lambda>c. c \<noteq> CHR ''='') (CHR ''='' # rest)) = []"
  by (simp add: map_filter_simps)

lemmas sextet_bounds = sextet0_bound sextet1_bound sextet2_bound sextet3_bound sextet1_pad_bound sextet2_pad_bound

lemma base64_roundtrip: "base64_decode (base64_encode bs) = bs"
proof (induction bs rule: base64_encode.induct)
  case 1
  show ?case by (simp add: base64_decode_def map_filter_simps)
next
  case (2 a)
  show ?case
    by (simp only: base64_decode_def base64_encode.simps sextets_step sextets_pad
          sextet_bounds decode_sextets.simps byte0_restored_pad)
next
  case (3 a b)
  show ?case
    by (simp only: base64_decode_def base64_encode.simps sextets_step sextets_pad
          sextet_bounds decode_sextets.simps byte0_restored byte1_restored_pad)
next
  case (4 a b c rest)
  then have IH: "decode_sextets (List.map_filter unbase64
      (takeWhile (\<lambda>c. c \<noteq> CHR ''='') (base64_encode rest))) = rest"
    by (simp only: base64_decode_def)
  show ?case
    by (simp only: base64_decode_def base64_encode.simps append.simps sextets_step
          sextet_bounds decode_sextets.simps byte0_restored byte1_restored byte2_restored IH)
qed

subsection \<open>Saving and loading back\<close>

lemma findImageFile_loop_only:
  "e \<in> set exts \<Longrightarrow> fs_existsSync fs (path_join b (i @ e)) \<Longrightarrow>
   (\<forall>e'\<in>set exts. e' \<noteq> e \<longrightarrow> \<not> fs_existsSync fs (path_join b (i @ e'))) \<Longrightarrow>
   findImageFile_loop fs b i exts = Some (path_join b (i @ e))"
  by (induction exts) (auto simp: Let_def)

lemma every_mime_has_ext:
  "\<forall>m\<in>set supported_mime_types. \<exists>e\<in>set SUPPORTED_IMAGE_EXTENSIONS. getMimeFromExt e = m"
  by (simp add: supported_mime_types_def SUPPORTED_IMAGE_EXTENSIONS_def getMimeFromExt_def
        toLowerCase_def lower_char_def)

text \<open>A save raises when the store directory is absent and cannot be created: under a
  regular file \<^verbatim>\<open>mkdirSync\<close> throws \<^verbatim>\<open>ENOTDIR\<close>, and the handler rethrows.\<close>

lemma save_under_file_raises:
  "fs b = None \<Longrightarrow> fs (parent_dir b) = Some (File bs ok) \<Longrightarrow>
   CLIPBOARD_IMAGE_SAVE fs b name data = (Inl ENOTDIR, fs)"
  by (simp add: save_eq ensureDir_under_file)

lemma save_succeeds:
  assumes dir: "canonical_dir b" and n: "CHR ''/'' \<notin> set n"
    and free: "fs (b @ ''/'' @ n) = None"
    and ready: "fs b = Some (Dir True) \<or> (fs b = None \<and> fs (parent_dir b) = Some (Dir True))"
  shows "\<exists>fs0. ensureDir fs b = Inr fs0 \<and>
           fs_writeFileSync fs0 (b @ ''/'' @ n) bs = Inr (fs0(b @ ''/'' @ n \<mapsto> File bs True))"
proof -
  from canonical_dir_shape[OF dir] have b: "b \<noteq> []" by simp
  from b n have parent: "parent_dir (b @ ''/'' @ n) = b" by (rule parent_dir_child)
  from ready show ?thesis
  proof
    assume present: "fs b = Some (Dir True)"
    then have "ensureDir fs b = Inr fs" by (rule ensureDir_present)
    moreover from present free parent
    have "fs_writeFileSync fs (b @ ''/'' @ n) bs = Inr (fs(b @ ''/'' @ n \<mapsto> File bs True))"
      by (simp add: fs_writeFileSync_def)
    ultimately show ?thesis by blast
  next
    assume absent: "fs b = None \<and> fs (parent_dir b) = Some (Dir True)"
    then have e: "ensureDir fs b = Inr (fs(b \<mapsto> Dir True))" by (simp add: ensureDir_created)
    have "b @ ''/'' @ n \<noteq> b" by simp
    with free parent
    have "fs_writeFileSync (fs(b \<mapsto> Dir True)) (b @ ''/'' @ n) bs =
            Inr ((fs(b \<mapsto> Dir True))(b @ ''/'' @ n \<mapsto> File bs True))"
      by (simp add: fs_writeFileSync_def)
    with e show ?thesis by blast
  qed
qed

text \<open>
  Claim C1. Save/load fidelity of the file backend. Let \<open>m\<close> be a supported mime type
  and \<open>ext\<close> the supported extension chosen for it at save time (one that the handlers
  map to \<open>m\<close>); let the store directory be an absolute path in normal form; let the id be
  new in the directory (no file of the id under any supported extension), non-empty and
  without a path separator. Then whenever saving the base64 text of a payload \<open>b\<close> under
  the name \<open>{id}{ext}\<close> succeeds, the path returned is \<open>basePath/{id}{ext}\<close>, the file at
  that path holds exactly \<open>b\<close>, get-path of the id gives that path, and loading the id
  gives the base64 text of exactly \<open>b\<close>, whose decoding is \<open>b\<close>, with the mime type
  \<open>m\<close>. The save does succeed when the directory exists and can be written, and when it
  is absent and its parent exists and can be written (the directory is then created).
  Every supported mime type has such an extension. The file backend has no size cap: the
  statement holds for payloads of any length.
\<close>

theorem save_load_fidelity:
  assumes m: "m \<in> set supported_mime_types"
    and ext: "ext \<in> set SUPPORTED_IMAGE_EXTENSIONS"
    and ext_m: "getMimeFromExt ext = m"
    and dir: "canonical_dir basePath"
    and i: "imageId \<noteq> []" "CHR ''/'' \<notin> set imageId"
    and fresh: "\<forall>e\<in>set SUPPORTED_IMAGE_EXTENSIONS.
                  \<not> fs_existsSync fs (path_join basePath (imageId @ e))"
  shows "(\<forall>r fs1.
            CLIPBOARD_IMAGE_SAVE fs basePath (imageId @ ext) (base64_encode b) = (Inr r, fs1) \<longrightarrow>
              r = basePath @ ''/'' @ imageId @ ext \<and>
              fs_readFileSync fs1 r = Inr b \<and>
              CLIPBOARD_IMAGE_GET_PATH fs1 basePath imageId = (Inr (Some r), fs1) \<and>
              CLIPBOARD_IMAGE_LOAD fs1 basePath imageId =
                (Inr (Some \<lparr>base64 = base64_encode b, mimeType = m\<rparr>), fs1)) \<and>
         (fs basePath = Some (Dir True) \<or>
          (fs basePath = None \<and> fs (parent_dir basePath) = Some (Dir True)) \<longrightarrow>
            (\<exists>r fs1. CLIPBOARD_IMAGE_SAVE fs basePath (imageId @ ext) (base64_encode b) =
                       (Inr r, fs1))) \<and>
         base64_decode (base64_encode b) = b \<and>
         (\<forall>m\<in>set supported_mime_types.
            \<exists>e\<in>set SUPPORTED_IMAGE_EXTENSIONS. getMimeFromExt e = m)"
proof (intro conjI allI impI)
  let ?p = "basePath @ ''/'' @ imageId @ ext"
  have cand: "path_join basePath (imageId @ e) = basePath @ ''/'' @ imageId @ e"
    if "e \<in> set SUPPORTED_IMAGE_EXTENSIONS" for e
    using dir that i(2) by (rule candidate_path)
  from canonical_dir_shape[OF dir] have base: "basePath \<noteq> []" by simp
  {
    fix r fs1
    assume save: "CLIPBOARD_IMAGE_SAVE fs basePath (imageId @ ext) (base64_encode b) = (Inr r, fs1)"
    from save_Inr[OF save] obtain fs0 where
      r: "r = ?p" and e: "ensureDir fs basePath = Inr fs0"
      and fs1: "fs1 = fs0(r \<mapsto> File b True)"
      by (auto simp: cand[OF ext] base64_roundtrip)
    show "r = ?p" by (rule r)
    show rd: "fs_readFileSync fs1 r = Inr b"
      by (simp add: fs_readFileSync_def fs1)
    have ex: "fs_existsSync fs1 (path_join basePath (imageId @ ext))"
      by (simp add: fs_existsSync_def fs1 r cand[OF ext])
    have others: "\<forall>e'\<in>set SUPPORTED_IMAGE_EXTENSIONS. e' \<noteq> ext \<longrightarrow>
        \<not> fs_existsSync fs1 (path_join basePath (imageId @ e'))"
    proof (intro ballI impI)
      fix e' assume e': "e' \<in> set SUPPORTED_IMAGE_EXTENSIONS" "e' \<noteq> ext"
      from e'(2) have "basePath @ ''/'' @ imageId @ e' \<noteq> r" by (simp add: r)
      then have "fs1 (basePath @ ''/'' @ imageId @ e') = fs (basePath @ ''/'' @ imageId @ e')"
        using ensureDir_child[OF e base, of "imageId @ e'"] by (simp add: fs1)
      moreover from fresh e'(1)
      have "\<not> fs_existsSync fs (path_join basePath (imageId @ e'))" by blast
      ultimately show "\<not> fs_existsSync fs1 (path_join basePath (imageId @ e'))"
        by (simp add: fs_existsSync_def cand[OF e'(1)])
    qed
    from ext ex others
    have found: "findImageFile fs1 basePath imageId = Some (path_join basePath (imageId @ ext))"
      unfolding findImageFile_def by (rule findImageFile_loop_only)
    then have found': "findImageFile fs1 basePath imageId = Some r"
      by (simp add: cand[OF ext] r)
    then show "CLIPBOARD_IMAGE_GET_PATH fs1 basePath imageId = (Inr (Some r), fs1)"
      by (simp add: get_path_eq)
    have "path_extname (path_join basePath (imageId @ ext)) = ext"
      using ext i by (rule path_extname_candidate)
    then have mime: "path_extname r = ext" by (simp add: cand[OF ext] r)
    show "CLIPBOARD_IMAGE_LOAD fs1 basePath imageId =
             (Inr (Some \<lparr>base64 = base64_encode b, mimeType = m\<rparr>), fs1)"
      by (simp add: load_eq found' rd mime ext_m)
  }
  {
    assume ready: "fs basePath = Some (Dir True) \<or>
          (fs basePath = None \<and> fs (parent_dir basePath) = Some (Dir True))"
    from supported_ext_shape[OF ext] i(2) have n: "CHR ''/'' \<notin> set (imageId @ ext)" by auto
    from fresh ext have free: "fs (basePath @ ''/'' @ (imageId @ ext)) = None"
      by (auto simp: fs_existsSync_def cand[OF ext])
    from save_succeeds[OF dir n free ready, of b] obtain fs0 where
      "ensureDir fs basePath = Inr fs0"
      "fs_writeFileSync fs0 (basePath @ ''/'' @ (imageId @ ext)) b =
         Inr (fs0(basePath @ ''/'' @ (imageId @ ext) \<mapsto> File b True))"
      by blast
    then show "\<exists>r fs1. CLIPBOARD_IMAGE_SAVE fs basePath (imageId @ ext) (base64_encode b) =
                       (Inr r, fs1)"
      by (simp add: save_eq cand[OF ext] base64_roundtrip)
  }
  show "base64_decode (base64_encode b) = b" by (rule base64_roundtrip)
  show "\<forall>m\<in>set supported_mime_types.
            \<exists>e\<in>set SUPPORTED_IMAGE_EXTENSIONS. getMimeFromExt e = m"
    by (rule every_mime_has_ext)
qed

theorem save_load_fidelity_witness:
  "''image/jpeg'' \<in> set supported_mime_types \<and>
   ''.jpg'' \<in> set SUPPORTED_IMAGE_EXTENSIONS \<and>
   getMimeFromExt ''.jpg'' = ''image/jpeg'' \<and>
   canonical_dir ''/imgs'' \<and>
   ''n7'' \<noteq> [] \<and> CHR ''/'' \<notin> set ''n7'' \<and>
   list_all (\<lambda>e. \<not> fs_existsSync example_store (path_join ''/imgs'' (''n7'' @ e)))
     SUPPORTED_IMAGE_EXTENSIONS \<and>
   example_store ''/imgs'' = Some (Dir True) \<and>
   base64_encode [255, 216, 255] = ''/9j/'' \<and>
   CLIPBOARD_IMAGE_SAVE example_store ''/imgs'' ''n7.jpg'' ''/9j/'' =
     (Inr ''/imgs/n7.jpg'', example_store(''/imgs/n7.jpg'' \<mapsto> File [255, 216, 255] True)) \<and>
   CLIPBOARD_IMAGE_GET_PATH (example_store(''/imgs/n7.jpg'' \<mapsto> File [255, 216, 255] True))
       ''/imgs'' ''n7'' =
     (Inr (Some ''/imgs/n7.jpg''),
      example_store(''/imgs/n7.jpg'' \<mapsto> File [255, 216, 255] True)) \<and>
   CLIPBOARD_IMAGE_LOAD (example_store(''/imgs/n7.jpg'' \<mapsto> File [255, 216, 255] True))
       ''/imgs'' ''n7'' =
     (Inr (Some \<lparr>base64 = ''/9j/'', mimeType = ''image/jpeg''\<rparr>),
      example_store(''/imgs/n7.jpg'' \<mapsto> File [255, 216, 255] True)) \<and>
   canonical_dir ''/docs/pics'' \<and>
   list_all (\<lambda>e. \<not> fs_existsSync example_store (path_join ''/docs/pics'' (''n7'' @ e)))
     SUPPORTED_IMAGE_EXTENSIONS \<and>
   example_store ''/docs/pics'' = None \<and>
   example_store (parent_dir ''/docs/pics'') = Some (Dir True) \<and>
   CLIPBOARD_IMAGE_SAVE example_store ''/docs/pics'' ''n7.jpg'' ''/9j/'' =
     (Inr ''/docs/pics/n7.jpg'',
      example_store(''/docs/pics'' \<mapsto> Dir True,
                    ''/docs/pics/n7.jpg'' \<mapsto> File [255, 216, 255] True)) \<and>
   CLIPBOARD_IMAGE_LOAD
       (example_store(''/docs/pics'' \<mapsto> Dir True,
                      ''/docs/pics/n7.jpg'' \<mapsto> File [255, 216, 255] True))
       ''/docs/pics'' ''n7'' =
     (Inr (Some \<lparr>base64 = ''/9j/'', mimeType = ''image/jpeg''\<rparr>),
      example_store(''/docs/pics'' \<mapsto> Dir True,
                    ''/docs/pics/n7.jpg'' \<mapsto> File [255, 216, 255] True))"
proof -
  let ?fs1 = "example_store(''/imgs/n7.jpg'' \<mapsto> File [255, 216, 255] True)"
  let ?fs2 = "example_store(''/docs/pics'' \<mapsto> Dir True,
                            ''/docs/pics/n7.jpg'' \<mapsto> File [255, 216, 255] True)"
  have m: "''image/jpeg'' \<in> set supported_mime_types"
    by (simp add: supported_mime_types_def)
  have ext: "''.jpg'' \<in> set SUPPORTED_IMAGE_EXTENSIONS"
    by (simp add: SUPPORTED_IMAGE_EXTENSIONS_def)
  have i: "''n7'' \<noteq> []" "CHR ''/'' \<notin> set ''n7''" by simp_all
  have pics: "canonical_dir ''/docs/pics''"
    by (simp add: canonical_dir_def simple_name_def)
  have pics_join: "path_join ''/docs/pics'' n = ''/docs/pics/'' @ n" if "simple_name n" for n
    using path_join_canonical[OF pics that] by simp
  have fresh: "\<forall>e\<in>set SUPPORTED_IMAGE_EXTENSIONS.
      \<not> fs_existsSync example_store (path_join ''/imgs'' (''n7'' @ e))"
    by (simp add: SUPPORTED_IMAGE_EXTENSIONS_def imgs_join simple_name_def fs_existsSync_def
          example_store_def)
  have fresh2: "\<forall>e\<in>set SUPPORTED_IMAGE_EXTENSIONS.
      \<not> fs_existsSync example_store (path_join ''/docs/pics'' (''n7'' @ e))"
    by (simp add: SUPPORTED_IMAGE_EXTENSIONS_def pics_join simple_name_def fs_existsSync_def
          example_store_def)
  have dir: "example_store ''/imgs'' = Some (Dir True)" by (simp add: example_store_def)
  have absent: "example_store ''/docs/pics'' = None" by (simp add: example_store_def)
  have parent: "example_store (parent_dir ''/docs/pics'') = Some (Dir True)"
    by (simp add: parent_dir_def Let_def example_store_def)
  have enc: "base64_encode [255, 216, 255] = ''/9j/''"
    by (simp add: base64_char_def char_eval)
  have mime: "getMimeFromExt ''.jpg'' = ''image/jpeg''"
    by (simp add: getMimeFromExt_def toLowerCase_def lower_char_def)
  have dec: "base64_decode ''/9j/'' = [255, 216, 255]"
    by (simp add: base64_decode_def unbase64_def map_filter_simps)
  have wr: "fs_writeFileSync example_store ''/imgs/n7.jpg'' [255, 216, 255] = Inr ?fs1"
    by (simp add: fs_writeFileSync_def parent_dir_def Let_def example_store_def)
  have sv: "CLIPBOARD_IMAGE_SAVE example_store ''/imgs'' ''n7.jpg'' ''/9j/'' =
     (Inr ''/imgs/n7.jpg'', ?fs1)"
    by (simp add: save_eq ensureDir_present[of example_store "''/imgs''", OF dir] dec imgs_join simple_name_def wr)
  have mk: "ensureDir example_store ''/docs/pics'' = Inr (example_store(''/docs/pics'' \<mapsto> Dir True))"
    using ensureDir_created[of example_store "''/docs/pics''"] absent parent by simp
  have wr2: "fs_writeFileSync (example_store(''/docs/pics'' \<mapsto> Dir True)) ''/docs/pics/n7.jpg''
      [255, 216, 255] = Inr ?fs2"
    by (simp add: fs_writeFileSync_def parent_dir_def Let_def example_store_def)
  have sv2: "CLIPBOARD_IMAGE_SAVE example_store ''/docs/pics'' ''n7.jpg'' ''/9j/'' =
     (Inr ''/docs/pics/n7.jpg'', ?fs2)"
    by (simp add: save_eq mk dec pics_join simple_name_def wr2)
  have sv': "CLIPBOARD_IMAGE_SAVE example_store ''/imgs'' (''n7'' @ ''.jpg'')
           (base64_encode [255, 216, 255]) = (Inr ''/imgs/n7.jpg'', ?fs1)"
    unfolding enc using sv by simp
  have sv2': "CLIPBOARD_IMAGE_SAVE example_store ''/docs/pics'' (''n7'' @ ''.jpg'')
           (base64_encode [255, 216, 255]) = (Inr ''/docs/pics/n7.jpg'', ?fs2)"
    unfolding enc using sv2 by simp
  note after = save_load_fidelity [OF m ext mime imgs_canonical i fresh, of "[255, 216, 255]",
      THEN conjunct1, THEN spec, THEN spec, THEN mp, OF sv']
  from after [THEN conjunct2, THEN conjunct2, THEN conjunct1]
  have gp: "CLIPBOARD_IMAGE_GET_PATH ?fs1 ''/imgs'' ''n7'' =
     (Inr (Some ''/imgs/n7.jpg''), ?fs1)" .
  from after [THEN conjunct2, THEN conjunct2, THEN conjunct2]
  have ld: "CLIPBOARD_IMAGE_LOAD ?fs1 ''/imgs'' ''n7'' =
     (Inr (Some \<lparr>base64 = ''/9j/'', mimeType = ''image/jpeg''\<rparr>), ?fs1)"
    by (simp only: enc)
  from save_load_fidelity [OF m ext mime pics i fresh2, of "[255, 216, 255]",
      THEN conjunct1, THEN spec, THEN spec, THEN mp, OF sv2',
      THEN conjunct2, THEN conjunct2, THEN conjunct2]
  have ld2: "CLIPBOARD_IMAGE_LOAD ?fs2 ''/docs/pics'' ''n7'' =
     (Inr (Some \<lparr>base64 = ''/9j/'', mimeType = ''image/jpeg''\<rparr>), ?fs2)"
    by (simp only: enc)
  from fresh have fresh': "list_all (\<lambda>e. \<not> fs_existsSync example_store
      (path_join ''/imgs'' (''n7'' @ e))) SUPPORTED_IMAGE_EXTENSIONS"
    by (simp add: list_all_iff)
  from fresh2 have fresh2': "list_all (\<lambda>e. \<not> fs_existsSync example_store
      (path_join ''/docs/pics'' (''n7'' @ e))) SUPPORTED_IMAGE_EXTENSIONS"
    by (simp add: list_all_iff)
  from m ext mime imgs_canonical i fresh' dir enc sv gp ld pics fresh2' absent parent sv2 ld2
  show ?thesis by blast
qed

subsection \<open>Generated identifiers\<close>





lemma newId_same_clock:
  "newId now rnd1 = newId now rnd2 \<longleftrightarrow> drop 2 rnd1 = drop 2 rnd2"
  by (simp add: newId_def)


subsection \<open>Mime types from extensions\<close>


















subsection \<open>The filter over clipboard file paths\<close>

lemma imageFiles_mem:
  "p \<in> set (imageFiles fs filePaths) \<longleftrightarrow>
     p \<in> set filePaths \<and> fs_existsSync fs p \<and>
     toLowerCase (path_extname p) \<in>
       {''.png'', ''.jpg'', ''.jpeg'', ''.gif'', ''.webp'', ''.svg'', ''.bmp''}"
  by (auto simp: imageFiles_def SUPPORTED_IMAGE_EXTENSIONS_def Let_def)

lemma imageFiles_count:
  "count_list (imageFiles fs filePaths) p =
     (if fs_existsSync fs p \<and>
         toLowerCase (path_extname p) \<in>
           {''.png'', ''.jpg'', ''.jpeg'', ''.gif'', ''.webp'', ''.svg'', ''.bmp''}
      then count_list filePaths p else 0)"
  by (induction filePaths)
     (auto simp: imageFiles_def SUPPORTED_IMAGE_EXTENSIONS_def Let_def)

text \<open>
  Claim C7. A path survives the filter exactly when it is one of the clipboard paths, it
  exists in the file system, and its extension, in lower case, is one of \<^verbatim>\<open>.png\<close>,
  \<^verbatim>\<open>.jpg\<close>, \<^verbatim>\<open>.jpeg\<close>, \<^verbatim>\<open>.gif\<close>, \<^verbatim>\<open>.webp\<close>, \<^verbatim>\<open>.svg\<close>, \<^verbatim>\<open>.bmp\<close>. Surviving paths keep
  their multiplicity and their order. Of a \<^verbatim>\<open>.txt\<close> path pasted together with an existing
  \<^verbatim>\<open>.png\<close> path, only the \<^verbatim>\<open>.png\<close> path survives.
\<close>

theorem imageFiles_exact:
  "(\<forall>p. p \<in> set (imageFiles fs filePaths) \<longleftrightarrow>
         p \<in> set filePaths \<and> fs_existsSync fs p \<and>
         toLowerCase (path_extname p) \<in>
           {''.png'', ''.jpg'', ''.jpeg'', ''.gif'', ''.webp'', ''.svg'', ''.bmp''}) \<and>
   (\<forall>p. count_list (imageFiles fs filePaths) p =
         (if fs_existsSync fs p \<and>
             toLowerCase (path_extname p) \<in>
               {''.png'', ''.jpg'', ''.jpeg'', ''.gif'', ''.webp'', ''.svg'', ''.bmp''}
          then count_list filePaths p else 0)) \<and>
   (\<forall>xs ys. imageFiles fs (xs @ ys) = imageFiles fs xs @ imageFiles fs ys) \<and>
   (\<forall>textPath pngPath. toLowerCase (path_extname textPath) = ''.txt'' \<and>
              toLowerCase (path_extname pngPath) = ''.png'' \<and> fs_existsSync fs pngPath
        \<longrightarrow> imageFiles fs [textPath, pngPath] = [pngPath])"
proof (intro conjI allI impI)
  fix p
  show "p \<in> set (imageFiles fs filePaths) \<longleftrightarrow>
         p \<in> set filePaths \<and> fs_existsSync fs p \<and>
         toLowerCase (path_extname p) \<in>
           {''.png'', ''.jpg'', ''.jpeg'', ''.gif'', ''.webp'', ''.svg'', ''.bmp''}"
    by (rule imageFiles_mem)
  show "count_list (imageFiles fs filePaths) p =
         (if fs_existsSync fs p \<and>
             toLowerCase (path_extname p) \<in>
               {''.png'', ''.jpg'', ''.jpeg'', ''.gif'', ''.webp'', ''.svg'', ''.bmp''}
          then count_list filePaths p else 0)"
    by (rule imageFiles_count)
next
  fix xs ys
  show "imageFiles fs (xs @ ys) = imageFiles fs xs @ imageFiles fs ys"
    by (simp add: imageFiles_def)
next
  fix textPath pngPath
  assume "toLowerCase (path_extname textPath) = ''.txt'' \<and>
              toLowerCase (path_extname pngPath) = ''.png'' \<and> fs_existsSync fs pngPath"
  then show "imageFiles fs [textPath, pngPath] = [pngPath]"
    by (simp add: imageFiles_def SUPPORTED_IMAGE_EXTENSIONS_def)
qed

theorem imageFiles_exact_witness:
  "toLowerCase (path_extname ''/docs/notes.txt'') = ''.txt'' \<and>
   toLowerCase (path_extname ''/imgs/a1.png'') = ''.png'' \<and>
   fs_existsSync example_store ''/docs/notes.txt'' \<and>
   fs_existsSync example_store ''/imgs/a1.png'' \<and>
   imageFiles example_store [''/docs/notes.txt'', ''/imgs/a1.png''] = [''/imgs/a1.png''] \<and>
   ''/docs/Photo.JPG'' \<in> set (imageFiles example_store
      [''/docs/Photo.JPG'', ''/imgs/gone.png'', ''/imgs/c3.tiff'']) \<and>
   ''/imgs/gone.png'' \<notin> set (imageFiles example_store
      [''/docs/Photo.JPG'', ''/imgs/gone.png'', ''/imgs/c3.tiff'']) \<and>
   ''/imgs/c3.tiff'' \<notin> set (imageFiles example_store
      [''/docs/Photo.JPG'', ''/imgs/gone.png'', ''/imgs/c3.tiff''])"
proof -
  let ?ps = "[''/docs/Photo.JPG'', ''/imgs/gone.png'', ''/imgs/c3.tiff'']"
  have e1: "toLowerCase (path_extname ''/docs/notes.txt'') = ''.txt''"
    and e2: "toLowerCase (path_extname ''/imgs/a1.png'') = ''.png''"
    and e3: "toLowerCase (path_extname ''/docs/Photo.JPG'') = ''.jpg''"
    and e4: "toLowerCase (path_extname ''/imgs/c3.tiff'') = ''.tiff''"
    by (simp_all add: path_extname_def last_portion_def portion_ext_def toLowerCase_def
          lower_char_def char_eval)
  have x1: "fs_existsSync example_store ''/docs/notes.txt''"
    and x2: "fs_existsSync example_store ''/imgs/a1.png''"
    and x3: "fs_existsSync example_store ''/docs/Photo.JPG''"
    and x4: "\<not> fs_existsSync example_store ''/imgs/gone.png''"
    by (simp_all add: fs_existsSync_def example_store_def)
  from imageFiles_exact [of example_store "[]", THEN conjunct2, THEN conjunct2, THEN conjunct2,
      THEN spec, THEN spec, THEN mp, of "''/docs/notes.txt''" "''/imgs/a1.png''"] e1 e2 x2
  have s1: "imageFiles example_store [''/docs/notes.txt'', ''/imgs/a1.png''] = [''/imgs/a1.png'']"
    by blast
  note mem = imageFiles_exact [of example_store ?ps, THEN conjunct1, THEN spec]
  from mem [of "''/docs/Photo.JPG''"] e3 x3
  have s2: "''/docs/Photo.JPG'' \<in> set (imageFiles example_store ?ps)" by simp
  from mem [of "''/imgs/gone.png''"] x4
  have s3: "''/imgs/gone.png'' \<notin> set (imageFiles example_store ?ps)" by simp
  from mem [of "''/imgs/c3.tiff''"] e4
  have s4: "''/imgs/c3.tiff'' \<notin> set (imageFiles example_store ?ps)" by simp
  from e1 e2 x1 x2 s1 s2 s3 s4 show ?thesis by blast
qed

section \<open>Properties of the reference syntax and of the capped blob store\<close>

subsection \<open>Formatting and parsing a reference\<close>

lemma strip_prefix_append: "strip_prefix p (p @ s) = Some s"
  by (induction p) auto

lemma is_digit_char_of: "d < 10 \<Longrightarrow> is_digit (char_of (d + 48 :: nat))"
  by (simp add: is_digit_def)

lemma digit_value: "d < 10 \<Longrightarrow> (of_char (char_of (d + 48 :: nat)) :: nat) - 48 = d"
  by simp

lemma show_nat_digits: "list_all is_digit (show_nat n) \<and> show_nat n \<noteq> []"
proof (induction n rule: show_nat.induct)
  case (1 n)
  show ?case
  proof (cases "n < 10")
    case True
    then show ?thesis by (simp add: show_nat.simps[of n] is_digit_char_of)
  next
    case False
    with 1 show ?thesis by (simp add: show_nat.simps[of n] is_digit_char_of)
  qed
qed

lemma foldl_show_nat:
  "foldl (\<lambda>n c. 10 * n + ((of_char c :: nat) - 48)) 0 (show_nat n) = n"
proof (induction n rule: show_nat.induct)
  case (1 n)
  show ?case
  proof (cases "n < 10")
    case True
    then show ?thesis by (simp add: show_nat.simps[of n])
  next
    case False
    then have "foldl (\<lambda>n c. 10 * n + ((of_char c :: nat) - 48)) 0 (show_nat (n div 10)) = n div 10"
      using 1 by simp
    moreover have "(of_char (char_of (n mod 10 + 48 :: nat)) :: nat) - 48 = n mod 10"
      by (rule digit_value) simp
    ultimately show ?thesis using False
      by (simp add: show_nat.simps[of n])
  qed
qed

lemma parse_nat_show_nat: "parse_nat (show_nat n) = Some n"
  by (simp add: parse_nat_def show_nat_digits foldl_show_nat)

lemma parse_positive_show_nat: "0 < n \<Longrightarrow> parse_positive (show_nat n) = Some n"
  by (simp add: parse_positive_def parse_nat_show_nat)

lemma digit_not_x: "is_digit c \<Longrightarrow> c \<noteq> CHR ''x''"
  by (auto simp: is_digit_def)

lemma show_nat_no_x: "CHR ''x'' \<notin> set (show_nat n)"
  using show_nat_digits[of n] by (auto simp: list_all_iff dest: digit_not_x)

lemma parse_sizing_format:
  assumes "0 < w" "0 < h"
  shows "parse_sizing (''='' @ show_nat w @ ''x'' @ show_nat h) = Some (w, h)"
proof -
  have t: "takeWhile (\<lambda>c. c \<noteq> CHR ''x'') (show_nat w @ CHR ''x'' # show_nat h) = show_nat w"
    by (rule takeWhile_until) (rule show_nat_no_x)
  have d: "dropWhile (\<lambda>c. c \<noteq> CHR ''x'') (show_nat w @ CHR ''x'' # show_nat h)
             = CHR ''x'' # show_nat h"
    by (rule dropWhile_until) (rule show_nat_no_x)
  from assms show ?thesis
    by (simp add: parse_sizing_def t d parse_positive_show_nat)
qed

lemma valid_id_no_space: "valid_id s \<Longrightarrow> CHR '' '' \<notin> set s"
  by (auto simp: valid_id_def list_all_iff valid_id_char_def Let_def)

lemma takeWhile_all: "c \<notin> set xs \<Longrightarrow> takeWhile (\<lambda>x. x \<noteq> c) xs = xs"
  by (induction xs) auto

lemma dropWhile_all: "c \<notin> set xs \<Longrightarrow> dropWhile (\<lambda>x. x \<noteq> c) xs = []"
  by (induction xs) auto

text \<open>Parsing a well-formed node whose source is the URL of a valid id followed by the
  text \<open>rest\<close>, which is empty or begins with a space.\<close>

lemma parse_reference_node:
  assumes alt: "CHR '']'' \<notin> set alt"
    and ident: "valid_id ident"
    and rest: "rest = [] \<or> (\<exists>s. rest = CHR '' '' # s)"
  shows "parse_reference (''!['' @ alt @ '']('' @ SCHEME @ ''://clipboard-images/'' @ ident @
            rest @ '')'') =
         Some \<lparr>ref_scheme = SCHEME, ref_id = ident, ref_dimensions = parse_sizing (drop 1 rest)\<rparr>"
proof -
  define pre where "pre = SCHEME @ ''://clipboard-images/''"
  have nosp: "CHR '' '' \<notin> set (pre @ ident)"
    using valid_id_no_space[OF ident] by (simp add: pre_def SCHEME_def)
  have d1: "dropWhile (\<lambda>c. c \<noteq> CHR '']'') (alt @ CHR '']'' # CHR ''('' # pre @ ident @ rest @ '')'')
              = CHR '']'' # CHR ''('' # pre @ ident @ rest @ '')''"
    using alt by (rule dropWhile_until)
  have bl: "butlast (pre @ ident @ rest @ '')'') = pre @ ident @ rest"
    by (simp add: butlast_append)
  have tw: "takeWhile (\<lambda>c. c \<noteq> CHR '' '') (pre @ ident @ rest) = pre @ ident"
    and dw: "drop 1 (dropWhile (\<lambda>c. c \<noteq> CHR '' '') (pre @ ident @ rest)) = drop 1 rest"
  proof -
    show "takeWhile (\<lambda>c. c \<noteq> CHR '' '') (pre @ ident @ rest) = pre @ ident"
    proof (cases "rest = []")
      case True
      from nosp have "takeWhile (\<lambda>c. c \<noteq> CHR '' '') (pre @ ident) = pre @ ident"
        by (rule takeWhile_all)
      then show ?thesis unfolding True by (simp only: append_Nil2)
    next
      case False
      with rest obtain s where s: "rest = CHR '' '' # s" by blast
      from nosp have "takeWhile (\<lambda>c. c \<noteq> CHR '' '') ((pre @ ident) @ CHR '' '' # s) = pre @ ident"
        by (rule takeWhile_until)
      then show ?thesis by (simp add: s)
    qed
    show "drop 1 (dropWhile (\<lambda>c. c \<noteq> CHR '' '') (pre @ ident @ rest)) = drop 1 rest"
    proof (cases "rest = []")
      case True
      from nosp have "dropWhile (\<lambda>c. c \<noteq> CHR '' '') (pre @ ident) = []"
        by (rule dropWhile_all)
      then show ?thesis unfolding True by (simp only: append_Nil2 drop_Nil)
    next
      case False
      with rest obtain s where s: "rest = CHR '' '' # s" by blast
      from nosp have "dropWhile (\<lambda>c. c \<noteq> CHR '' '') ((pre @ ident) @ CHR '' '' # s) = CHR '' '' # s"
        by (rule dropWhile_until)
      then show ?thesis by (simp add: s)
    qed
  qed
  have sp: "strip_prefix pre (pre @ ident) = Some ident"
    by (rule strip_prefix_append)
  have "parse_reference (''!['' @ alt @ '']('' @ pre @ ident @ rest @ '')'') =
         Some \<lparr>ref_scheme = SCHEME, ref_id = ident, ref_dimensions = parse_sizing (drop 1 rest)\<rparr>"
    by (simp add: parse_reference_def pre_def[symmetric] d1 bl tw dw[unfolded One_nat_def] sp ident
          Let_def)
  then show ?thesis by (simp add: pre_def)
qed

text \<open>
  Claim C2. Reference round trip: for every valid Reference \<open>r\<close> (the fixed scheme, a
  valid id, and no dimensions or a pair of positive integers), parsing the markdown text
  that the formatter produces for \<open>r\<close> succeeds and gives \<open>r\<close> back.
\<close>

theorem reference_round_trip:
  "valid_reference r \<Longrightarrow> parse_reference (format_reference r) = Some r"
proof -
  assume v: "valid_reference r"
  then have sch: "ref_scheme r = SCHEME" and ident: "valid_id (ref_id r)"
    by (simp_all add: valid_reference_def)
  have alt: "CHR '']'' \<notin> set ALT" by (simp add: ALT_def)
  show ?thesis
  proof (cases "ref_dimensions r")
    case None
    have "parse_reference (''!['' @ ALT @ '']('' @ SCHEME @ ''://clipboard-images/'' @ ref_id r @
            [] @ '')'') =
         Some \<lparr>ref_scheme = SCHEME, ref_id = ref_id r, ref_dimensions = parse_sizing (drop 1 [])\<rparr>"
      using alt ident by (rule parse_reference_node) simp
    moreover have "parse_sizing [] = None" by (simp add: parse_sizing_def)
    ultimately show ?thesis using None sch
      by (cases r) (simp add: format_reference_def)
  next
    case (Some d)
    obtain w h where d: "d = (w, h)" by (cases d)
    with v Some have pos: "0 < w" "0 < h" by (simp_all add: valid_reference_def)
    let ?rest = "'' ='' @ show_nat w @ ''x'' @ show_nat h"
    have "parse_reference (''!['' @ ALT @ '']('' @ SCHEME @ ''://clipboard-images/'' @ ref_id r @
            ?rest @ '')'') =
         Some \<lparr>ref_scheme = SCHEME, ref_id = ref_id r, ref_dimensions = parse_sizing (drop 1 ?rest)\<rparr>"
      using alt ident by (rule parse_reference_node) simp
    moreover have "parse_sizing (drop 1 ?rest) = Some (w, h)"
      using parse_sizing_format[OF pos] by simp
    ultimately show ?thesis using Some d sch
      by (cases r) (simp add: format_reference_def)
  qed
qed

theorem reference_round_trip_witness:
  "valid_reference \<lparr>ref_scheme = ''indexeddb'', ref_id = ''m2r1bz7k4fzyo82mvyr'',
                     ref_dimensions = Some (200, 150)\<rparr> \<and>
   format_reference \<lparr>ref_scheme = ''indexeddb'', ref_id = ''m2r1bz7k4fzyo82mvyr'',
                      ref_dimensions = Some (200, 150)\<rparr> =
     ''![pasted image](indexeddb://clipboard-images/m2r1bz7k4fzyo82mvyr =200x150)'' \<and>
   parse_reference ''![pasted image](indexeddb://clipboard-images/m2r1bz7k4fzyo82mvyr =200x150)'' =
     Some \<lparr>ref_scheme = ''indexeddb'', ref_id = ''m2r1bz7k4fzyo82mvyr'',
            ref_dimensions = Some (200, 150)\<rparr>"
proof -
  let ?r = "\<lparr>ref_scheme = ''indexeddb'', ref_id = ''m2r1bz7k4fzyo82mvyr'',
             ref_dimensions = Some (200, 150)\<rparr>"
  have v: "valid_reference ?r"
    by (simp add: valid_reference_def SCHEME_def valid_id_def valid_id_char_def)
  have f: "format_reference ?r =
     ''![pasted image](indexeddb://clipboard-images/m2r1bz7k4fzyo82mvyr =200x150)''"
    by (simp add: format_reference_def ALT_def show_nat.simps char_eval)
  from reference_round_trip [OF v] have "parse_reference (format_reference ?r) = Some ?r" .
  then have p: "parse_reference
      ''![pasted image](indexeddb://clipboard-images/m2r1bz7k4fzyo82mvyr =200x150)'' = Some ?r"
    by (simp only: f)
  from v f p show ?thesis by blast
qed

subsection \<open>The sizing suffix\<close>

lemma parse_nat_digits:
  "parse_nat s = Some n \<Longrightarrow> s \<noteq> [] \<and> list_all is_digit s"
  by (simp add: parse_nat_def split: if_splits)

lemma parse_positive_Some:
  "parse_positive s = Some n \<Longrightarrow> 0 < n \<and> s \<noteq> [] \<and> list_all is_digit s"
  by (auto simp: parse_positive_def split: option.splits if_splits dest: parse_nat_digits)

lemma strip_prefix_Some: "strip_prefix p s = Some t \<Longrightarrow> s = p @ t"
  by (induction p s rule: strip_prefix.induct) (auto split: if_splits)

lemma parse_sizing_Some:
  assumes "parse_sizing suffix = Some (w, h)"
  shows "0 < w \<and> 0 < h \<and>
         (\<exists>ws hs. suffix = ''='' @ ws @ ''x'' @ hs \<and>
            ws \<noteq> [] \<and> list_all is_digit ws \<and> hs \<noteq> [] \<and> list_all is_digit hs)"
proof -
  from assms obtain wh hs where
    s1: "strip_prefix ''='' suffix = Some wh"
    and s2: "strip_prefix ''x'' (dropWhile (\<lambda>c. c \<noteq> CHR ''x'') wh) = Some hs"
    and pw: "parse_positive (takeWhile (\<lambda>c. c \<noteq> CHR ''x'') wh) = Some w"
    and ph: "parse_positive hs = Some h"
    by (auto simp: parse_sizing_def split: option.splits)
  let ?ws = "takeWhile (\<lambda>c. c \<noteq> CHR ''x'') wh"
  from strip_prefix_Some[OF s1] have a: "suffix = ''='' @ wh" .
  from strip_prefix_Some[OF s2] have "dropWhile (\<lambda>c. c \<noteq> CHR ''x'') wh = ''x'' @ hs" .
  then have "wh = ?ws @ ''x'' @ hs"
    by (metis takeWhile_dropWhile_id)
  with a have "suffix = ''='' @ ?ws @ ''x'' @ hs" by simp
  with parse_positive_Some[OF pw] parse_positive_Some[OF ph] show ?thesis by blast
qed

text \<open>
  Claim C6. Sizing-suffix parsing fails open. The suffix \<^verbatim>\<open>=200x150\<close> gives the pair
  \<open>(200, 150)\<close>; \<^verbatim>\<open>=0x150\<close>, \<^verbatim>\<open>=abcxdef\<close> and the empty suffix give no sizing hint. A
  suffix gives a pair only when it is \<^verbatim>\<open>=\<close>, digits, \<^verbatim>\<open>x\<close>, digits, and both numbers are
  positive. Whatever the suffix, a node with a valid id parses to a Reference with that
  id: with the dimensions the suffix gives when it is well formed, without dimensions
  otherwise and when there is no suffix.
\<close>

theorem sizing_fails_open:
  "parse_sizing ''=200x150'' = Some (200, 150) \<and>
   parse_sizing ''=0x150'' = None \<and>
   parse_sizing ''=abcxdef'' = None \<and>
   parse_sizing [] = None \<and>
   (\<forall>w h. parse_sizing suffix = Some (w, h) \<longrightarrow>
      0 < w \<and> 0 < h \<and>
      (\<exists>ws hs. suffix = ''='' @ ws @ ''x'' @ hs \<and>
         ws \<noteq> [] \<and> list_all is_digit ws \<and> hs \<noteq> [] \<and> list_all is_digit hs)) \<and>
   (CHR '']'' \<notin> set alt \<and> valid_id ident \<longrightarrow>
      parse_reference (''!['' @ alt @ '']('' @ SCHEME @ ''://clipboard-images/'' @ ident @
                         '' '' @ suffix @ '')'') =
        Some \<lparr>ref_scheme = SCHEME, ref_id = ident, ref_dimensions = parse_sizing suffix\<rparr> \<and>
      parse_reference (''!['' @ alt @ '']('' @ SCHEME @ ''://clipboard-images/'' @ ident @ '')'') =
        Some \<lparr>ref_scheme = SCHEME, ref_id = ident, ref_dimensions = None\<rparr>)"
proof (intro conjI allI impI)
  show "parse_sizing ''=200x150'' = Some (200, 150)"
    by (simp add: parse_sizing_def parse_positive_def parse_nat_def is_digit_def)
  show "parse_sizing ''=0x150'' = None"
    by (simp add: parse_sizing_def parse_positive_def parse_nat_def is_digit_def)
  show "parse_sizing ''=abcxdef'' = None"
    by (simp add: parse_sizing_def parse_positive_def parse_nat_def is_digit_def)
  show "parse_sizing [] = None"
    by (simp add: parse_sizing_def)
next
  fix w h assume "parse_sizing suffix = Some (w, h)"
  from parse_sizing_Some[OF this]
  show "0 < w" "0 < h"
    "\<exists>ws hs. suffix = ''='' @ ws @ ''x'' @ hs \<and>
         ws \<noteq> [] \<and> list_all is_digit ws \<and> hs \<noteq> [] \<and> list_all is_digit hs"
    by blast+
next
  assume a: "CHR '']'' \<notin> set alt \<and> valid_id ident"
  then have alt: "CHR '']'' \<notin> set alt" and ident: "valid_id ident" by simp_all
  have "parse_reference (''!['' @ alt @ '']('' @ SCHEME @ ''://clipboard-images/'' @ ident @
            ('' '' @ suffix) @ '')'') =
         Some \<lparr>ref_scheme = SCHEME, ref_id = ident,
                ref_dimensions = parse_sizing (drop 1 ('' '' @ suffix))\<rparr>"
    using alt ident by (rule parse_reference_node) simp
  then show "parse_reference (''!['' @ alt @ '']('' @ SCHEME @ ''://clipboard-images/'' @ ident @
                         '' '' @ suffix @ '')'') =
        Some \<lparr>ref_scheme = SCHEME, ref_id = ident, ref_dimensions = parse_sizing suffix\<rparr>"
    by simp
  have "parse_reference (''!['' @ alt @ '']('' @ SCHEME @ ''://clipboard-images/'' @ ident @
            [] @ '')'') =
         Some \<lparr>ref_scheme = SCHEME, ref_id = ident, ref_dimensions = parse_sizing (drop 1 [])\<rparr>"
    using alt ident by (rule parse_reference_node) simp
  then show "parse_reference (''!['' @ alt @ '']('' @ SCHEME @ ''://clipboard-images/'' @ ident @ '')'') =
        Some \<lparr>ref_scheme = SCHEME, ref_id = ident, ref_dimensions = None\<rparr>"
    by (simp add: parse_sizing_def)
qed

theorem sizing_fails_open_witness:
  "CHR '']'' \<notin> set ''pasted image'' \<and> valid_id ''abc123'' \<and>
   parse_reference ''![pasted image](indexeddb://clipboard-images/abc123 =200x150)'' =
     Some \<lparr>ref_scheme = ''indexeddb'', ref_id = ''abc123'', ref_dimensions = Some (200, 150)\<rparr> \<and>
   parse_reference ''![pasted image](indexeddb://clipboard-images/abc123 =0x150)'' =
     Some \<lparr>ref_scheme = ''indexeddb'', ref_id = ''abc123'', ref_dimensions = None\<rparr> \<and>
   parse_reference ''![pasted image](indexeddb://clipboard-images/abc123 =abcxdef)'' =
     Some \<lparr>ref_scheme = ''indexeddb'', ref_id = ''abc123'', ref_dimensions = None\<rparr> \<and>
   parse_reference ''![pasted image](indexeddb://clipboard-images/abc123)'' =
     Some \<lparr>ref_scheme = ''indexeddb'', ref_id = ''abc123'', ref_dimensions = None\<rparr>"
proof -
  have alt: "CHR '']'' \<notin> set ''pasted image''" by simp
  have ident: "valid_id ''abc123''" by (simp add: valid_id_def valid_id_char_def)
  note hyp = conjI [OF alt ident]
  note szs = sizing_fails_open [of "''=200x150''" "''pasted image''" "''abc123''"]
  from sizing_fails_open [of "''=200x150''" "''pasted image''" "''abc123''",
      THEN conjunct2, THEN conjunct2, THEN conjunct2, THEN conjunct2, THEN conjunct2,
      THEN mp, OF hyp] szs [THEN conjunct1]
  have p1: "parse_reference ''![pasted image](indexeddb://clipboard-images/abc123 =200x150)'' =
     Some \<lparr>ref_scheme = ''indexeddb'', ref_id = ''abc123'', ref_dimensions = Some (200, 150)\<rparr>"
    and p4: "parse_reference ''![pasted image](indexeddb://clipboard-images/abc123)'' =
     Some \<lparr>ref_scheme = ''indexeddb'', ref_id = ''abc123'', ref_dimensions = None\<rparr>"
    by (simp_all add: SCHEME_def)
  from sizing_fails_open [of "''=0x150''" "''pasted image''" "''abc123''",
      THEN conjunct2, THEN conjunct2, THEN conjunct2, THEN conjunct2, THEN conjunct2,
      THEN mp, OF hyp] szs [THEN conjunct2, THEN conjunct1]
  have p2: "parse_reference ''![pasted image](indexeddb://clipboard-images/abc123 =0x150)'' =
     Some \<lparr>ref_scheme = ''indexeddb'', ref_id = ''abc123'', ref_dimensions = None\<rparr>"
    by (simp add: SCHEME_def)
  from sizing_fails_open [of "''=abcxdef''" "''pasted image''" "''abc123''",
      THEN conjunct2, THEN conjunct2, THEN conjunct2, THEN conjunct2, THEN conjunct2,
      THEN mp, OF hyp] szs [THEN conjunct2, THEN conjunct2, THEN conjunct1]
  have p3: "parse_reference ''![pasted image](indexeddb://clipboard-images/abc123 =abcxdef)'' =
     Some \<lparr>ref_scheme = ''indexeddb'', ref_id = ''abc123'', ref_dimensions = None\<rparr>"
    by (simp add: SCHEME_def)
  from alt ident p1 p2 p3 p4 show ?thesis by blast
qed

subsection \<open>The size cap\<close>

text \<open>
  Claim C3. On the capped store, saving a payload of exactly 2 MiB succeeds (when the
  medium accepts the write) and puts the record under the new id; saving a payload of
  2 MiB + 1 byte, or of any length above the cap, fails with \<open>SizeLimitExceeded\<close>
  whatever the medium does, and the store after the failed save is the store before it.
  A save within the cap can be loaded back.
\<close>

theorem size_boundary:
  "(length bytes = 2 * 1024 * 1024 \<and> medium_ok \<longrightarrow>
      blobstore_save store medium_ok newid now bytes mime =
        (Inr newid,
         store(newid \<mapsto> \<lparr>blob_bytes = bytes, blob_mimeType = mime,
                            blob_size = 2 * 1024 * 1024, blob_createdAt = now\<rparr>))) \<and>
   (length bytes = 2 * 1024 * 1024 + 1 \<longrightarrow>
      blobstore_save store medium_ok newid now bytes mime = (Inl SizeLimitExceeded, store)) \<and>
   (2 * 1024 * 1024 < length bytes \<longrightarrow>
      blobstore_save store medium_ok newid now bytes mime = (Inl SizeLimitExceeded, store)) \<and>
   (length bytes \<le> 2 * 1024 * 1024 \<and> medium_ok \<longrightarrow>
      fst (blobstore_save store medium_ok newid now bytes mime) = Inr newid \<and>
      blobstore_load (snd (blobstore_save store medium_ok newid now bytes mime)) newid =
        Some (bytes, mime))"
  by (simp add: blobstore_save_def blob_save_def MAX_IMAGE_SIZE_def blobstore_load_def)

theorem size_boundary_witness:
  "length (replicate (2 * 1024 * 1024) (0 :: byte)) = 2 * 1024 * 1024 \<and>
   blobstore_save Map.empty True ''m2r1bz7k4fzyo82mvyr'' 1730000000000
       (replicate (2 * 1024 * 1024) 0) ''image/png'' =
     (Inr ''m2r1bz7k4fzyo82mvyr'',
      [''m2r1bz7k4fzyo82mvyr'' \<mapsto>
         \<lparr>blob_bytes = replicate (2 * 1024 * 1024) 0, blob_mimeType = ''image/png'',
          blob_size = 2 * 1024 * 1024, blob_createdAt = 1730000000000\<rparr>]) \<and>
   length (replicate (2 * 1024 * 1024 + 1) (0 :: byte)) = 2 * 1024 * 1024 + 1 \<and>
   blobstore_save Map.empty True ''m2r1bz7k4fzyo82mvyr'' 1730000000000
       (replicate (2 * 1024 * 1024 + 1) 0) ''image/png'' =
     (Inl SizeLimitExceeded, Map.empty)"
proof -
  have l1: "length (replicate (2 * 1024 * 1024) (0 :: byte)) = 2 * 1024 * 1024" by simp
  have l2: "length (replicate (2 * 1024 * 1024 + 1) (0 :: byte)) = 2 * 1024 * 1024 + 1" by simp
  from size_boundary [of "replicate (2 * 1024 * 1024) 0" True Map.empty
      "''m2r1bz7k4fzyo82mvyr''" 1730000000000 "''image/png''", THEN conjunct1] l1
  have a: "blobstore_save Map.empty True ''m2r1bz7k4fzyo82mvyr'' 1730000000000
       (replicate (2 * 1024 * 1024) 0) ''image/png'' =
     (Inr ''m2r1bz7k4fzyo82mvyr'',
      [''m2r1bz7k4fzyo82mvyr'' \<mapsto>
         \<lparr>blob_bytes = replicate (2 * 1024 * 1024) 0, blob_mimeType = ''image/png'',
          blob_size = 2 * 1024 * 1024, blob_createdAt = 1730000000000\<rparr>])"
    by blast
  from size_boundary [of "replicate (2 * 1024 * 1024 + 1) 0" True Map.empty
      "''m2r1bz7k4fzyo82mvyr''" 1730000000000 "''image/png''", THEN conjunct2, THEN conjunct1] l2
  have b: "blobstore_save Map.empty True ''m2r1bz7k4fzyo82mvyr'' 1730000000000
       (replicate (2 * 1024 * 1024 + 1) 0) ''image/png'' = (Inl SizeLimitExceeded, Map.empty)"
    by blast
  from l1 a l2 b show ?thesis by blast
qed


end
